theory Spec2Isabelle
  imports Main "HOL-Library.Word" "HOL-Library.Monad_Syntax"
begin

unbundle bit_operations_syntax

section \<open>The SLCAN bridge sketch (slcan/slcan.ino)\<close>

text \<open>
  The sketch bridges a serial port and an MCP2515 CAN controller. All of its state is
  global: the 32-byte line buffer \<open>slcanBuf\<close>, its fill level \<open>slcanLen\<close>, the flag
  \<open>canOpen\<close> and the receive frame \<open>rxFrame\<close>. The model passes that state explicitly
  and records the two effects of the sketch in it: the bytes written to \<open>Serial\<close> and
  the frames handed to \<open>mcp2515.sendMessage\<close>.

  A result of type \<open>'a option\<close> is \<open>None\<close> where the C program would read or write
  outside an array.
\<close>

subsection \<open>Characters and the C library\<close>

definition NUL :: char where "NUL = CHR 0x00"
definition BEL :: char where "BEL = CHR 0x07"
definition LF :: char where "LF = CHR 0x0A"
definition CR :: char where "CR = CHR 0x0D"

text \<open>\<open>isspace\<close> in the C locale: space, \<open>\t\<close>, \<open>\n\<close>, \<open>\v\<close>, \<open>\f\<close>, \<open>\r\<close>.\<close>

definition isspace :: "char \<Rightarrow> bool" where
  "isspace c = (c = CHR 0x20 \<or> c = CHR 0x09 \<or> c = CHR 0x0A \<or> c = CHR 0x0B
                \<or> c = CHR 0x0C \<or> c = CHR 0x0D)"

text \<open>
  \<open>toupper\<close> in the C locale: only \<open>a\<close> .. \<open>z\<close> change; a byte above \<open>0x7F\<close> is
  returned as it is.
\<close>

definition toupper :: "char \<Rightarrow> char" where
  "toupper c = (let n = (of_char c :: nat)
                in if 97 \<le> n \<and> n \<le> 122 then char_of (n - 32) else c)"

text \<open>The value of a base-16 digit, in either case; \<open>None\<close> for any other character.\<close>

definition hex_val :: "char \<Rightarrow> nat option" where
  "hex_val c = (let n = (of_char c :: nat)
                in if 48 \<le> n \<and> n \<le> 57 then Some (n - 48)
                   else if 65 \<le> n \<and> n \<le> 70 then Some (n - 55)
                   else if 97 \<le> n \<and> n \<le> 102 then Some (n - 87)
                   else None)"

text \<open>A C string ends at the first NUL of the array that holds it.\<close>

definition c_str :: "string \<Rightarrow> string" where
  "c_str a = takeWhile (\<lambda>c. c \<noteq> NUL) a"

text \<open>
  \<open>strtoul(s, nullptr, 16)\<close> of the C library (ISO C 7.22.1.4): leading white space is
  skipped, then an optional sign, then an optional \<open>0x\<close> or \<open>0X\<close>, then the longest run
  of base-16 digits is converted. No digits give 0; a minus sign negates the value in
  the unsigned type; a value that does not fit gives \<open>ULONG_MAX\<close>. \<open>unsigned long\<close> has
  32 bits on the AVR target of the sketch.
\<close>

fun skip_space :: "string \<Rightarrow> string" where
  "skip_space [] = []"
| "skip_space (c # cs) = (if isspace c then skip_space cs else c # cs)"

fun strip_sign :: "string \<Rightarrow> bool \<times> string" where
  "strip_sign [] = (False, [])"
| "strip_sign (c # cs) =
     (if c = CHR ''-'' then (True, cs)
      else if c = CHR ''+'' then (False, cs)
      else (False, c # cs))"

fun strip_0x :: "string \<Rightarrow> string" where
  "strip_0x (a # b # c # cs) =
     (if a = CHR ''0'' \<and> (b = CHR ''x'' \<or> b = CHR ''X'') \<and> hex_val c \<noteq> None
      then c # cs else a # b # c # cs)"
| "strip_0x cs = cs"

fun hex_accum :: "nat \<Rightarrow> string \<Rightarrow> nat" where
  "hex_accum acc [] = acc"
| "hex_accum acc (c # cs) =
     (case hex_val c of None \<Rightarrow> acc | Some d \<Rightarrow> hex_accum (acc * 16 + d) cs)"

definition strtoul16 :: "string \<Rightarrow> 32 word" where
  "strtoul16 a =
     (let (neg, r) = strip_sign (skip_space (c_str a));
          v = hex_accum 0 (strip_0x r)
      in if 2 ^ 32 \<le> v then - 1
         else if neg then - of_nat v
         else of_nat v)"

text \<open>
  \<open>sprintf\<close> with the conversions the sketch uses. \<open>%X\<close> prints the value in base 16
  with the digits \<open>0123456789ABCDEF\<close> and no leading zeros (one digit for 0); a width
  pads on the left, with zeros under the \<open>0\<close> flag and with spaces otherwise, and
  never truncates.
\<close>

definition hexchar :: "nat \<Rightarrow> char" where
  "hexchar d = (if d < 10 then char_of (48 + d) else char_of (55 + d))"

function hex_digits :: "nat \<Rightarrow> string" where
  "hex_digits n = (if n < 16 then [hexchar n]
                   else hex_digits (n div 16) @ [hexchar (n mod 16)])"
  by pat_completeness auto
termination
  by (relation "measure (\<lambda>n. n)") auto

definition sprintf_0X :: "nat \<Rightarrow> nat \<Rightarrow> string" where
  "sprintf_0X w n = replicate (w - length (hex_digits n)) (CHR ''0'') @ hex_digits n"

definition sprintf_X :: "nat \<Rightarrow> nat \<Rightarrow> string" where
  "sprintf_X w n = replicate (w - length (hex_digits n)) (CHR 0x20) @ hex_digits n"

subsection \<open>Data\<close>

text \<open>
  \<open>struct can_frame\<close> of the MCP2515 library: a 32-bit identifier word (identifier in the
  low bits, flags in the high bits), an 8-bit length code and an array of 8 data bytes.
  The array is a list; a frame is well formed when the list has 8 elements.
\<close>

record can_frame =
  can_id :: "32 word"
  can_dlc :: "8 word"
  data :: "8 word list"

definition wf_frame :: "can_frame \<Rightarrow> bool" where
  "wf_frame f = (length (data f) = 8)"

text \<open>
  Modelled from the spec: \<open>CAN_EFF_FLAG\<close> is declared in the MCP2515 library's
  \<open>can.h\<close>, which is not part of the sketch. It is the extended-identifier flag of
  \<open>can_id\<close>, the top bit of the 32-bit word, above the 29 identifier bits.
\<close>

definition CAN_EFF_FLAG :: "32 word" where
  "CAN_EFF_FLAG = 0x80000000"

text \<open>
  The globals of the sketch, and the two output channels. \<open>slcanLen\<close> is a \<open>uint8_t\<close>;
  it is only ever incremented under the guard \<open>slcanLen + 1 < sizeof(slcanBuf)\<close>,
  evaluated in \<open>int\<close>, so it never wraps and is a natural number here.
\<close>

record bridge =
  slcanBuf :: string
  slcanLen :: nat
  canOpen :: bool
  rxFrame :: can_frame
  serial_out :: string
  can_tx :: "can_frame list"

text \<open>
  What one pass of \<open>loop\<close> finds outside the sketch: the byte \<open>Serial.read()\<close> delivers
  if \<open>Serial.available()\<close>, the frame \<open>readMessage\<close> would store with \<open>ERROR_OK\<close> if it
  is called, and the indeterminate contents of the uninitialised local \<open>txFrame\<close>.
\<close>

record loop_input =
  serial_in :: "char option"
  can_rx :: "can_frame option"
  tx_uninit :: can_frame

definition Serial_write :: "string \<Rightarrow> bridge \<Rightarrow> bridge" where
  "Serial_write bs st = st\<lparr>serial_out := serial_out st @ bs\<rparr>"

definition sendMessage :: "can_frame \<Rightarrow> bridge \<Rightarrow> bridge" where
  "sendMessage f st = st\<lparr>can_tx := can_tx st @ [f]\<rparr>"

text \<open>The static initialisers: a zeroed buffer and frame, the bus open.\<close>

definition globals_init :: bridge where
  "globals_init =
     \<lparr>slcanBuf = replicate 32 NUL, slcanLen = 0, canOpen = True,
      rxFrame = \<lparr>can_id = 0, can_dlc = 0, data = replicate 8 0\<rparr>,
      serial_out = [], can_tx = []\<rparr>"

text \<open>
  The function \<open>setup\<close> of the sketch: when the bit rate is accepted it prints the banner with \<open>println\<close> and
  returns; otherwise it prints an error and spins in \<open>while (1)\<close>, so it never returns
  (\<open>None\<close>).
\<close>

definition setup_sketch :: "bool \<Rightarrow> bridge option" where
  "setup_sketch bitrate_ok =
     (if bitrate_ok
      then Some (Serial_write (''SLCAN ready (500kbps)'' @ [CR, LF]) globals_init)
      else None)"

subsection \<open>parseSlcan\<close>

text \<open>\<open>cmd[i]\<close>: the pointer is the start of an array; a read outside it is \<open>None\<close>.\<close>

definition rd :: "string \<Rightarrow> nat \<Rightarrow> char option" where
  "rd cmd i = (if i < length cmd then Some (cmd ! i) else None)"

text \<open>
  The payload loop \<open>for (i = 0; i < txFrame.can_dlc && i < 8; i++)\<close>, with
  \<open>p = cmd + 5 + 2 * i\<close>. The store narrows the \<open>unsigned long\<close> to a byte.
\<close>

function fill_data :: "string \<Rightarrow> 8 word \<Rightarrow> nat \<Rightarrow> 8 word list \<Rightarrow> 8 word list option" where
  "fill_data cmd dlc i d =
     (if i < unat dlc \<and> i < 8 then
        (case rd cmd (5 + 2 * i) of None \<Rightarrow> None
         | Some p0 \<Rightarrow>
            (case rd cmd (5 + 2 * i + 1) of None \<Rightarrow> None
             | Some p1 \<Rightarrow>
                if i < length d
                then fill_data cmd dlc (i + 1) (d[i := ucast (strtoul16 [p0, p1, NUL])])
                else None))
      else Some d)"
  by pat_completeness auto
termination
  by (relation "measure (\<lambda>(cmd, dlc, i, d). 8 - i)") auto

text \<open>
  The \<open>switch\<close> on \<open>cmd[0]\<close>; the result carries the local flag \<open>ack\<close>. The first
  argument is the indeterminate initial value of \<open>txFrame\<close>.
\<close>

definition slcan_switch :: "can_frame \<Rightarrow> string \<Rightarrow> bridge \<Rightarrow> (bridge \<times> bool) option" where
  "slcan_switch txFrame cmd st =
     do {
       c0 \<leftarrow> rd cmd 0;
       if c0 = CHR ''O'' then Some (st\<lparr>canOpen := True\<rparr>, True)
       else if c0 = CHR ''C'' then Some (st\<lparr>canOpen := False\<rparr>, True)
       else if c0 = CHR ''T'' \<or> c0 = CHR ''t'' then
         do {
           c1 \<leftarrow> rd cmd 1;
           c2 \<leftarrow> rd cmd 2;
           c3 \<leftarrow> rd cmd 3;
           c4 \<leftarrow> rd cmd 4;
           let idStr = [c1, c2, c3, NUL];
           let dlcStr = [c4, NUL];
           let dlc = (ucast (strtoul16 dlcStr) :: 8 word);
           d \<leftarrow> fill_data cmd dlc 0 (data txFrame);
           Some (sendMessage
                   (txFrame\<lparr>can_id := strtoul16 idStr, can_dlc := dlc, data := d\<rparr>) st,
                 True)
         }
       else Some (Serial_write [BEL] st, False)
     }"

definition parseSlcan :: "can_frame \<Rightarrow> string \<Rightarrow> bridge \<Rightarrow> bridge option" where
  "parseSlcan txFrame cmd st =
     do {
       (st', ack) \<leftarrow> slcan_switch txFrame cmd st;
       Some (if ack then Serial_write [CR] st' else st')
     }"

subsection \<open>sendSlcanFrame\<close>

text \<open>
  The loop \<open>for (i = 0; i < f.can_dlc; i++)\<close>. \<open>out\<close> holds the \<open>pos\<close> characters
  written so far; each \<open>sprintf\<close> writes two digits and a NUL into the 32-byte array.
\<close>

function put_data :: "can_frame \<Rightarrow> nat \<Rightarrow> string \<Rightarrow> string option" where
  "put_data f i out =
     (if i < unat (can_dlc f) then
        (if i < length (data f) \<and> length out + 3 \<le> 32
         then put_data f (i + 1) (out @ sprintf_0X 2 (unat (data f ! i)))
         else None)
      else Some out)"
  by pat_completeness auto
termination
  by (relation "measure (\<lambda>(f, i, out). unat (can_dlc f) - i)") auto

definition sendSlcanFrame :: "can_frame \<Rightarrow> bridge \<Rightarrow> bridge option" where
  "sendSlcanFrame f st =
     (if can_id f AND CAN_EFF_FLAG \<noteq> 0 then Some st
      else
        do {
          out \<leftarrow> put_data f 0
                   ([CHR ''t''] @ sprintf_0X 3 (unat (can_id f AND 0x7FF))
                      @ sprintf_X 1 (unat (can_dlc f AND 0x0F)));
          Some (Serial_write (out @ [CR]) st)
        })"

subsection \<open>loop\<close>

text \<open>Step 1 of \<open>loop\<close>: at most one byte from the serial port.\<close>

definition loop_serial :: "loop_input \<Rightarrow> bridge \<Rightarrow> bridge option" where
  "loop_serial inp st =
     (case serial_in inp of
        None \<Rightarrow> Some st
      | Some c \<Rightarrow>
          if c = CR \<or> c = LF then
            (if 0 < slcanLen st then
               (if slcanLen st < length (slcanBuf st) then
                  do {
                    let st1 = st\<lparr>slcanBuf := (slcanBuf st)[slcanLen st := NUL]\<rparr>;
                    st2 \<leftarrow> parseSlcan (tx_uninit inp) (slcanBuf st1) st1;
                    Some (st2\<lparr>slcanLen := 0\<rparr>)
                  }
                else None)
             else Some st)
          else
            (if slcanLen st + 1 < 32 then
               (if slcanLen st < length (slcanBuf st) then
                  Some (st\<lparr>slcanBuf := (slcanBuf st)[slcanLen st := toupper c],
                           slcanLen := slcanLen st + 1\<rparr>)
                else None)
             else Some st))"

text \<open>Step 2 of \<open>loop\<close>: at most one frame from the controller, only when open.\<close>

definition loop_can :: "loop_input \<Rightarrow> bridge \<Rightarrow> bridge option" where
  "loop_can inp st =
     (if canOpen st then
        (case can_rx inp of
           None \<Rightarrow> Some st
         | Some f \<Rightarrow> sendSlcanFrame f (st\<lparr>rxFrame := f\<rparr>))
      else Some st)"

definition loop :: "loop_input \<Rightarrow> bridge \<Rightarrow> bridge option" where
  "loop inp st = do { st1 \<leftarrow> loop_serial inp st; loop_can inp st1 }"

text \<open>Successive passes of \<open>loop\<close>, one per element of the input list.\<close>

fun loop_run :: "loop_input list \<Rightarrow> bridge \<Rightarrow> bridge option" where
  "loop_run [] st = Some st"
| "loop_run (inp # inps) st =
     (case loop inp st of None \<Rightarrow> None | Some st' \<Rightarrow> loop_run inps st')"

subsection \<open>Vocabulary of the properties\<close>

text \<open>A pass of \<open>loop\<close> in which the controller has no frame to deliver.\<close>

definition no_rx :: "loop_input \<Rightarrow> loop_input" where
  "no_rx inp = inp\<lparr>can_rx := None\<rparr>"

text \<open>
  The first character of the command line that a pass of \<open>loop\<close> hands to
  \<open>parseSlcan\<close>, if it hands one: the pass reads a terminator and the buffer is not
  empty.
\<close>

definition dispatched :: "loop_input \<Rightarrow> bridge \<Rightarrow> char option" where
  "dispatched inp st =
     (case serial_in inp of
        None \<Rightarrow> None
      | Some c \<Rightarrow> if (c = CR \<or> c = LF) \<and> 0 < slcanLen st
                  then Some (slcanBuf st ! 0) else None)"

text \<open>No pass of the run hands an \<open>O\<close> line to \<open>parseSlcan\<close>.\<close>

fun no_open_cmd :: "loop_input list \<Rightarrow> bridge \<Rightarrow> bool" where
  "no_open_cmd [] st = True"
| "no_open_cmd (inp # inps) st =
     (dispatched inp st \<noteq> Some (CHR ''O'')
      \<and> (case loop inp st of None \<Rightarrow> True | Some st' \<Rightarrow> no_open_cmd inps st'))"

text \<open>No pass of the run hands a \<open>C\<close> line to \<open>parseSlcan\<close>.\<close>

fun no_close_cmd :: "loop_input list \<Rightarrow> bridge \<Rightarrow> bool" where
  "no_close_cmd [] st = True"
| "no_close_cmd (inp # inps) st =
     (dispatched inp st \<noteq> Some (CHR ''C'')
      \<and> (case loop inp st of None \<Rightarrow> True | Some st' \<Rightarrow> no_close_cmd inps st'))"

text \<open>
  Decoding a field by its longest prefix of base-16 digits, and nothing else: the
  reading of a field that the specification gives.
\<close>

definition hex_prefix_value :: "string \<Rightarrow> nat" where
  "hex_prefix_value s =
     foldl (\<lambda>a c. case hex_val c of None \<Rightarrow> a | Some d \<Rightarrow> a * 16 + d) 0
       (takeWhile (\<lambda>c. hex_val c \<noteq> None) s)"

text \<open>The serial-port inputs of a run that delivers the bytes of \<open>s\<close>, one per pass.\<close>

definition serial_bytes :: "can_frame \<Rightarrow> string \<Rightarrow> loop_input list" where
  "serial_bytes g s = map (\<lambda>c. \<lparr>serial_in = Some c, can_rx = None, tx_uninit = g\<rparr>) s"

text \<open>
  The wire format of a forwarded frame as the specification words it: \<open>t\<close>, three
  upper-case digits of the identifier masked to 11 bits, one digit of the length masked
  to 4 bits, two digits for each of the first \<open>can_dlc\<close> payload bytes. The digit
  table is written out.
\<close>

definition hex_upper :: "nat \<Rightarrow> char" where
  "hex_upper d = ''0123456789ABCDEF'' ! (d mod 16)"

definition slcan_line :: "can_frame \<Rightarrow> string" where
  "slcan_line f =
     (let i = unat (can_id f AND 0x7FF); n = unat (can_dlc f AND 0x0F)
      in [CHR ''t'', hex_upper (i div 256), hex_upper (i div 16), hex_upper i, hex_upper n]
         @ concat (map (\<lambda>b. [hex_upper (unat b div 16), hex_upper (unat b)])
                     (take (unat (can_dlc f)) (data f))))"

text \<open>The shape of the line buffer that every pass of \<open>loop\<close> keeps.\<close>

definition wf_bridge :: "bridge \<Rightarrow> bool" where
  "wf_bridge st = (length (slcanBuf st) = 32 \<and> slcanLen st < 32)"

text \<open>A frame of zeros, to stand for the contents of \<open>txFrame\<close> in concrete runs.\<close>

definition zero_frame :: can_frame where
  "zero_frame = \<lparr>can_id = 0, can_dlc = 0, data = replicate 8 0\<rparr>"

section \<open>Properties\<close>

subsection \<open>Digits\<close>

declare hex_digits.simps [simp del] fill_data.simps [simp del] put_data.simps [simp del]

lemma replicate_32: "replicate 32 c =
  [c, c, c, c, c, c, c, c, c, c, c, c, c, c, c, c, c, c, c, c, c, c, c, c, c, c, c, c, c, c, c, c]"
  by (simp add: numeral_eq_Suc)

lemma replicate_23: "replicate 23 c =
  [c, c, c, c, c, c, c, c, c, c, c, c, c, c, c, c, c, c, c, c, c, c, c]"
  by (simp add: numeral_eq_Suc)

lemma replicate_8: "replicate 8 c = [c, c, c, c, c, c, c, c]"
  by (simp add: numeral_eq_Suc)

lemma toupper_eval:
  "toupper (CHR ''t'') = CHR ''T''" "toupper (CHR ''1'') = CHR ''1''"
  "toupper (CHR ''2'') = CHR ''2''" "toupper (CHR ''3'') = CHR ''3''"
  "toupper (CHR ''A'') = CHR ''A''" "toupper (CHR ''B'') = CHR ''B''"
  by (simp_all add: toupper_def char_of_eq_iff)

lemma rd_in: "i < length cmd \<Longrightarrow> rd cmd i = Some (cmd ! i)"
  by (simp add: rd_def)

lemma hex_digits_1: "n < 16 \<Longrightarrow> hex_digits n = [hexchar n]"
  by (subst hex_digits.simps) simp

lemma hex_digits_2: "16 \<le> n \<Longrightarrow> n < 256 \<Longrightarrow> hex_digits n = [hexchar (n div 16), hexchar (n mod 16)]"
proof -
  assume a: "16 \<le> n" "n < 256"
  then have "n div 16 < 16" by simp
  with a show ?thesis
    by (subst hex_digits.simps) (simp add: hex_digits_1)
qed

lemma hex_digits_3: "256 \<le> n \<Longrightarrow> n < 4096 \<Longrightarrow>
  hex_digits n = [hexchar (n div 256), hexchar (n div 16 mod 16), hexchar (n mod 16)]"
proof -
  assume a: "256 \<le> n" "n < 4096"
  then have b: "16 \<le> n div 16" "n div 16 < 256" by simp_all
  have c: "n div 16 div 16 = n div 256"
    by (simp add: div_mult2_eq[symmetric])
  from a b c show ?thesis
    by (subst hex_digits.simps) (simp add: hex_digits_2)
qed

lemma hexchar_0: "hexchar 0 = CHR ''0''"
  by (simp add: hexchar_def char_of_eq_iff)

lemma sprintf_0X_2: "n < 256 \<Longrightarrow> sprintf_0X 2 n = [hexchar (n div 16), hexchar (n mod 16)]"
  by (cases "n < 16") (simp_all add: sprintf_0X_def hex_digits_1 hex_digits_2 hexchar_0)

lemma sprintf_0X_3: "n < 4096 \<Longrightarrow>
  sprintf_0X 3 n = [hexchar (n div 256), hexchar (n div 16 mod 16), hexchar (n mod 16)]"
proof -
  assume n: "n < 4096"
  consider "n < 16" | "16 \<le> n" "n < 256" | "256 \<le> n" by linarith
  then show ?thesis
  proof cases
    case 1 then show ?thesis
      by (simp add: sprintf_0X_def hexchar_0 hex_digits_1 numeral_3_eq_3)
  next
    case 2 then show ?thesis
      by (simp add: sprintf_0X_def hex_digits_2 hexchar_0)
  next
    case 3 then show ?thesis using n
      by (simp add: sprintf_0X_def hex_digits_3)
  qed
qed

lemma sprintf_X_1: "n < 16 \<Longrightarrow> sprintf_X 1 n = [hexchar n]"
  by (simp add: sprintf_X_def hex_digits_1)

lemma hex_val_hexchar: "d < 16 \<Longrightarrow> hex_val (hexchar d) = Some d"
  by (auto simp: hex_val_def hexchar_def Let_def)

lemma of_char_hexchar: "d < 16 \<Longrightarrow> (of_char (hexchar d) :: nat) = (if d < 10 then 48 + d else 55 + d)"
  by (simp add: hexchar_def)

lemma char_neq_by_code: "(of_char c :: nat) \<noteq> of_char d \<Longrightarrow> c \<noteq> d"
  by auto

lemma hexchar_plain:
  assumes "d < 16"
  shows "\<not> isspace (hexchar d)" "hexchar d \<noteq> CHR ''-''" "hexchar d \<noteq> CHR ''+''"
    "hexchar d \<noteq> CHR ''x''" "hexchar d \<noteq> CHR ''X''" "hexchar d \<noteq> NUL"
  using assms
  by (auto simp: isspace_def NUL_def of_char_hexchar intro!: char_neq_by_code split: if_splits)

lemma c_str_simps:
  "c_str [] = []" "c_str (NUL # cs) = []" "c \<noteq> NUL \<Longrightarrow> c_str (c # cs) = c # c_str cs"
  by (simp_all add: c_str_def)

lemma strtoul16_hex1: "d < 16 \<Longrightarrow> strtoul16 [hexchar d, NUL] = of_nat d"
  by (simp add: strtoul16_def c_str_simps hexchar_plain hex_val_hexchar)

lemma strtoul16_hex2: "a < 16 \<Longrightarrow> b < 16 \<Longrightarrow> strtoul16 [hexchar a, hexchar b, NUL] = of_nat (a * 16 + b)"
  by (simp add: strtoul16_def c_str_simps hexchar_plain hex_val_hexchar)

lemma strtoul16_hex3: "a < 16 \<Longrightarrow> b < 16 \<Longrightarrow> c < 16 \<Longrightarrow>
   strtoul16 [hexchar a, hexchar b, hexchar c, NUL] = of_nat ((a * 16 + b) * 16 + c)"
  by (simp add: strtoul16_def c_str_simps hexchar_plain hex_val_hexchar)


subsection \<open>The two loops over the payload\<close>

lemma put_data_enc:
  "unat (can_dlc f) \<le> 8 \<Longrightarrow> length (data f) = 8 \<Longrightarrow> i \<le> unat (can_dlc f) \<Longrightarrow>
   length out = 5 + 2 * i \<Longrightarrow>
   put_data f i out =
     Some (out @ concat (map (\<lambda>b. [hexchar (unat b div 16), hexchar (unat b mod 16)])
                          (drop i (take (unat (can_dlc f)) (data f)))))"
proof (induction f i out rule: put_data.induct)
  case (1 f i out)
  show ?case
  proof (cases "i < unat (can_dlc f)")
    case False
    with "1.prems" show ?thesis
      by (subst put_data.simps) simp
  next
    case True
    let ?b = "data f ! i"
    have b: "unat ?b < 256"
      using unsigned_less [of ?b, where 'a = nat] by simp
    have guard: "i < length (data f) \<and> length out + 3 \<le> 32"
      using True "1.prems" by simp
    have len: "length (out @ sprintf_0X 2 (unat ?b)) = 5 + 2 * (i + 1)"
      using "1.prems" b by (simp add: sprintf_0X_2)
    have step: "drop i (take (unat (can_dlc f)) (data f))
                = ?b # drop (i + 1) (take (unat (can_dlc f)) (data f))"
      using True "1.prems" by (simp add: Cons_nth_drop_Suc [symmetric])
    have ih: "put_data f (i + 1) (out @ sprintf_0X 2 (unat ?b)) =
        Some ((out @ sprintf_0X 2 (unat ?b)) @
          concat (map (\<lambda>b. [hexchar (unat b div 16), hexchar (unat b mod 16)])
                    (drop (i + 1) (take (unat (can_dlc f)) (data f)))))"
      using "1.IH" [OF True guard] "1.prems" True len by simp
    show ?thesis
      using True guard ih b
      by (subst put_data.simps) (simp add: step sprintf_0X_2)
  qed
qed

lemma fill_data_dec:
  "5 + 2 * min (unat dlc) 8 \<le> length cmd \<Longrightarrow> length d = 8 \<Longrightarrow>
   \<exists>d'. fill_data cmd dlc i d = Some d' \<and> length d' = 8 \<and>
     (\<forall>j<8. d' ! j = (if i \<le> j \<and> j < unat dlc
                       then ucast (strtoul16 [cmd ! (5 + 2 * j), cmd ! (5 + 2 * j + 1), NUL])
                       else d ! j))"
proof (induction cmd dlc i d rule: fill_data.induct)
  case (1 cmd dlc i d)
  show ?case
  proof (cases "i < unat dlc \<and> i < 8")
    case False
    then show ?thesis using "1.prems"
      by (subst fill_data.simps) auto
  next
    case True
    let ?v = "ucast (strtoul16 [cmd ! (5 + 2 * i), cmd ! (5 + 2 * i + 1), NUL]) :: 8 word"
    have r0: "rd cmd (5 + 2 * i) = Some (cmd ! (5 + 2 * i))"
      and r1: "rd cmd (5 + 2 * i + 1) = Some (cmd ! (5 + 2 * i + 1))"
      using True "1.prems" by (auto simp: rd_def min_def split: if_splits)
    have il: "i < length d" using True "1.prems" by simp
    from "1.IH" [OF True r0 r1 il] "1.prems"
    obtain d' where d': "fill_data cmd dlc (i + 1) (d[i := ?v]) = Some d'"
        "length d' = 8"
        "\<forall>j<8. d' ! j = (if i + 1 \<le> j \<and> j < unat dlc
                       then ucast (strtoul16 [cmd ! (5 + 2 * j), cmd ! (5 + 2 * j + 1), NUL])
                       else d[i := ?v] ! j)"
      by auto
    have "fill_data cmd dlc i d = Some d'"
      using True r0 r1 il d'(1) by (subst fill_data.simps) simp
    moreover have "\<forall>j<8. d' ! j = (if i \<le> j \<and> j < unat dlc
                       then ucast (strtoul16 [cmd ! (5 + 2 * j), cmd ! (5 + 2 * j + 1), NUL])
                       else d ! j)"
      using d'(3) True il by (auto simp: nth_list_update)
    ultimately show ?thesis using d'(2) by blast
  qed
qed


subsection \<open>The branches of parseSlcan\<close>

lemma parse_open: "cmd \<noteq> [] \<Longrightarrow> cmd ! 0 = CHR ''O'' \<Longrightarrow>
  parseSlcan g cmd st = Some (Serial_write [CR] (st\<lparr>canOpen := True\<rparr>))"
  by (simp add: parseSlcan_def slcan_switch_def rd_def)

lemma parse_close: "cmd \<noteq> [] \<Longrightarrow> cmd ! 0 = CHR ''C'' \<Longrightarrow>
  parseSlcan g cmd st = Some (Serial_write [CR] (st\<lparr>canOpen := False\<rparr>))"
  by (simp add: parseSlcan_def slcan_switch_def rd_def)

lemma parse_other: "cmd \<noteq> [] \<Longrightarrow> cmd ! 0 \<notin> {CHR ''O'', CHR ''C'', CHR ''T'', CHR ''t''} \<Longrightarrow>
  parseSlcan g cmd st = Some (Serial_write [BEL] st)"
  by (simp add: parseSlcan_def slcan_switch_def rd_def)

lemma parse_transmit:
  assumes t: "cmd ! 0 = CHR ''T'' \<or> cmd ! 0 = CHR ''t''"
    and len: "5 + 2 * min (unat (ucast (strtoul16 [cmd ! 4, NUL]) :: 8 word)) 8 \<le> length cmd"
    and g: "length (data g) = 8"
  shows "\<exists>d. parseSlcan g cmd st =
              Some (Serial_write [CR] (sendMessage
                (g\<lparr>can_id := strtoul16 [cmd ! 1, cmd ! 2, cmd ! 3, NUL],
                   can_dlc := ucast (strtoul16 [cmd ! 4, NUL]), data := d\<rparr>) st))
            \<and> length d = 8
            \<and> (\<forall>j<8. d ! j = (if j < unat (ucast (strtoul16 [cmd ! 4, NUL]) :: 8 word)
                       then ucast (strtoul16 [cmd ! (5 + 2 * j), cmd ! (5 + 2 * j + 1), NUL])
                       else data g ! j))"
proof -
  let ?dlc = "ucast (strtoul16 [cmd ! 4, NUL]) :: 8 word"
  from fill_data_dec [OF len g, of 0]
  obtain d where d: "fill_data cmd ?dlc 0 (data g) = Some d" "length d = 8"
    "\<forall>j<8. d ! j = (if j < unat ?dlc
                       then ucast (strtoul16 [cmd ! (5 + 2 * j), cmd ! (5 + 2 * j + 1), NUL])
                       else data g ! j)"
    by auto
  have l5: "5 \<le> length cmd" using len by simp
  then have r: "rd cmd 0 = Some (cmd ! 0)" "rd cmd 1 = Some (cmd ! 1)" "rd cmd 2 = Some (cmd ! 2)"
    "rd cmd 3 = Some (cmd ! 3)" "rd cmd 4 = Some (cmd ! 4)"
    by (auto simp: rd_def)
  have "parseSlcan g cmd st =
              Some (Serial_write [CR] (sendMessage
                (g\<lparr>can_id := strtoul16 [cmd ! 1, cmd ! 2, cmd ! 3, NUL],
                   can_dlc := ?dlc, data := d\<rparr>) st))"
    using t l5 by (auto simp: parseSlcan_def slcan_switch_def rd_def d(1))
  with d(2,3) show ?thesis by blast
qed

lemma parse_canOpen:
  "parseSlcan g cmd st = Some st' \<Longrightarrow>
   canOpen st' = (if cmd ! 0 = CHR ''O'' then True
                  else if cmd ! 0 = CHR ''C'' then False else canOpen st)"
  by (auto simp: parseSlcan_def slcan_switch_def rd_def Serial_write_def sendMessage_def Let_def
           split: Option.bind_splits if_splits)

lemma hex_val_less: "hex_val c = Some d \<Longrightarrow> d < 16"
  by (auto simp: hex_val_def Let_def split: if_splits)

lemma strtoul16_one_digit: "\<exists>v<16. strtoul16 [c, NUL] = of_nat v"
proof -
  have a: "hex_accum 0 [c] < 16"
    by (auto split: option.splits dest: hex_val_less)
  show ?thesis
  proof (cases "c = NUL \<or> isspace c \<or> c = CHR ''-'' \<or> c = CHR ''+''")
    case True
    then have "strtoul16 [c, NUL] = of_nat 0"
      by (auto simp: strtoul16_def c_str_def)
    then show ?thesis by (intro exI [of _ 0]) simp
  next
    case False
    then have "strtoul16 [c, NUL] = of_nat (hex_accum 0 [c])"
      using a by (simp add: strtoul16_def c_str_def del: hex_accum.simps)
    with a show ?thesis by blast
  qed
qed

lemma ucast_of_nat_small: "v < 256 \<Longrightarrow> (ucast (of_nat v :: 32 word) :: 8 word) = of_nat v"
  by (simp add: unsigned_of_nat take_bit_nat_eq_self)

lemma dlc_le_15: "unat (ucast (strtoul16 [c, NUL]) :: 8 word) \<le> 15"
proof -
  obtain v where v: "v < 16" "strtoul16 [c, NUL] = of_nat v"
    using strtoul16_one_digit by blast
  then show ?thesis
    by (simp add: ucast_of_nat_small unat_of_nat)
qed


lemma min_dlc_bound: "5 + 2 * min (unat (ucast (strtoul16 [c, NUL]) :: 8 word)) 8 \<le> 21"
  by simp

subsection \<open>Dispatch and acknowledgment\<close>

text \<open>
  Claim C3. For a command line in the line buffer, \<open>parseSlcan\<close> writes exactly one
  carriage return when the first character is \<open>O\<close>, \<open>C\<close>, \<open>T\<close> or \<open>t\<close>. For any other
  first character it writes exactly one bell byte and no carriage return, and nothing
  else changes: the flag \<open>canOpen\<close> keeps its value and no frame is handed to the
  controller.
\<close>

theorem dispatch_acknowledgment:
  assumes "21 \<le> length cmd" and "wf_frame g"
  shows "(cmd ! 0 \<in> {CHR ''O'', CHR ''C'', CHR ''T'', CHR ''t''} \<longrightarrow>
            (\<exists>st'. parseSlcan g cmd st = Some st' \<and> serial_out st' = serial_out st @ [CR]))
       \<and> (cmd ! 0 \<notin> {CHR ''O'', CHR ''C'', CHR ''T'', CHR ''t''} \<longrightarrow>
            parseSlcan g cmd st = Some (st\<lparr>serial_out := serial_out st @ [BEL]\<rparr>))"
proof -
  have ne: "cmd \<noteq> []" using assms(1) by auto
  have len: "5 + 2 * min (unat (ucast (strtoul16 [cmd ! 4, NUL]) :: 8 word)) 8 \<le> length cmd"
    using assms(1) min_dlc_bound [of "cmd ! 4"] by linarith
  have g: "length (data g) = 8" using assms(2) by (simp add: wf_frame_def)
  have "cmd ! 0 = CHR ''O'' \<Longrightarrow> \<exists>st'. parseSlcan g cmd st = Some st' \<and> serial_out st' = serial_out st @ [CR]"
    using parse_open [OF ne, of g st] by (simp add: Serial_write_def)
  moreover have "cmd ! 0 = CHR ''C'' \<Longrightarrow> \<exists>st'. parseSlcan g cmd st = Some st' \<and> serial_out st' = serial_out st @ [CR]"
    using parse_close [OF ne, of g st] by (simp add: Serial_write_def)
  moreover have "cmd ! 0 = CHR ''T'' \<or> cmd ! 0 = CHR ''t'' \<Longrightarrow>
      \<exists>st'. parseSlcan g cmd st = Some st' \<and> serial_out st' = serial_out st @ [CR]"
    using parse_transmit [OF _ len g, of st] by (auto simp: Serial_write_def sendMessage_def)
  moreover have "cmd ! 0 \<notin> {CHR ''O'', CHR ''C'', CHR ''T'', CHR ''t''} \<Longrightarrow>
      parseSlcan g cmd st = Some (st\<lparr>serial_out := serial_out st @ [BEL]\<rparr>)"
    using parse_other [OF ne, of g st] by (simp add: Serial_write_def)
  ultimately show ?thesis by blast
qed

theorem dispatch_acknowledgment_witness:
  "parseSlcan zero_frame (''Z'' @ replicate 31 NUL) globals_init
     = Some (globals_init\<lparr>serial_out := [BEL]\<rparr>)
   \<and> (\<exists>st'. parseSlcan zero_frame (''O'' @ replicate 31 NUL) globals_init = Some st'
            \<and> serial_out st' = [CR])"
  using dispatch_acknowledgment [of "''Z'' @ replicate 31 NUL" zero_frame globals_init]
    dispatch_acknowledgment [of "''O'' @ replicate 31 NUL" zero_frame globals_init]
  by (simp add: wf_frame_def zero_frame_def globals_init_def)



subsection \<open>The bus-state flag and the line assembler\<close>

lemma sendSlcanFrame_canOpen: "sendSlcanFrame f st = Some st' \<Longrightarrow> canOpen st' = canOpen st"
  by (auto simp: sendSlcanFrame_def Serial_write_def split: if_splits Option.bind_splits)

lemma loop_can_canOpen: "loop_can inp st = Some st' \<Longrightarrow> canOpen st' = canOpen st"
  by (auto simp: loop_can_def split: if_splits option.splits dest!: sendSlcanFrame_canOpen)

lemma loop_serial_canOpen:
  assumes "loop_serial inp st = Some st'"
  shows "canOpen st' = (if dispatched inp st = Some (CHR ''O'') then True
                        else if dispatched inp st = Some (CHR ''C'') then False
                        else canOpen st)"
proof (cases "dispatched inp st")
  case None
  with assms show ?thesis
    by (auto simp: loop_serial_def dispatched_def split: option.splits if_splits)
next
  case (Some a)
  then obtain c where c: "serial_in inp = Some c" "c = CR \<or> c = LF" "0 < slcanLen st"
    and a: "a = slcanBuf st ! 0"
    by (auto simp: dispatched_def split: option.splits if_splits)
  let ?cmd = "(slcanBuf st)[slcanLen st := NUL]"
  from assms c obtain s2 where
    s2: "parseSlcan (tx_uninit inp) ?cmd (st\<lparr>slcanBuf := ?cmd\<rparr>) = Some s2"
    and st': "st' = s2\<lparr>slcanLen := 0\<rparr>"
    by (auto simp: loop_serial_def split: if_splits Option.bind_splits)
  have "?cmd ! 0 = a" using c(3) a by simp
  with parse_canOpen [OF s2] st' Some show ?thesis by simp
qed

text \<open>
  Claim C9. The flag \<open>canOpen\<close> is true in the initial globals and after \<open>setup\<close>.
  \<open>parseSlcan\<close> returns on every line in the buffer, with the flag true after an \<open>O\<close>
  line, false after a \<open>C\<close> line and unchanged after any other line. Over a whole pass
  of \<open>loop\<close> the flag changes only when the pass dispatches an \<open>O\<close> or a \<open>C\<close> line: a
  pass that dispatches another line, that reads a byte which completes no line, that
  reads no byte, or that forwards a frame, leaves it as it was.
\<close>

theorem bus_flag_frame:
  "canOpen globals_init
   \<and> (\<exists>st0. setup_sketch True = Some st0 \<and> canOpen st0)
   \<and> (21 \<le> length cmd \<and> wf_frame g \<longrightarrow>
        (\<exists>st'. parseSlcan g cmd st = Some st'
           \<and> canOpen st' = (if cmd ! 0 = CHR ''O'' then True
                             else if cmd ! 0 = CHR ''C'' then False else canOpen st)))
   \<and> (\<forall>st'. loop inp st = Some st' \<longrightarrow>
         canOpen st' = (if dispatched inp st = Some (CHR ''O'') then True
                        else if dispatched inp st = Some (CHR ''C'') then False
                        else canOpen st))"
proof -
  have a: "canOpen globals_init" by (simp add: globals_init_def)
  have b: "\<exists>st0. setup_sketch True = Some st0 \<and> canOpen st0"
    by (simp add: setup_sketch_def Serial_write_def globals_init_def)
  have c: "\<exists>st'. parseSlcan g cmd st = Some st'" if h: "21 \<le> length cmd" "wf_frame g"
  proof -
    have ne: "cmd \<noteq> []" using h(1) by auto
    have len: "5 + 2 * min (unat (ucast (strtoul16 [cmd ! 4, NUL]) :: 8 word)) 8 \<le> length cmd"
      using h(1) min_dlc_bound [of "cmd ! 4"] by linarith
    have g: "length (data g) = 8" using h(2) by (simp add: wf_frame_def)
    consider "cmd ! 0 = CHR ''O''" | "cmd ! 0 = CHR ''C''"
      | "cmd ! 0 = CHR ''T'' \<or> cmd ! 0 = CHR ''t''"
      | "cmd ! 0 \<notin> {CHR ''O'', CHR ''C'', CHR ''T'', CHR ''t''}"
      by blast
    then show ?thesis
    proof cases
      case 1 then show ?thesis using parse_open [OF ne] by simp
    next
      case 2 then show ?thesis using parse_close [OF ne] by simp
    next
      case 3 then show ?thesis using parse_transmit [OF _ len g, of st] by blast
    next
      case 4 then show ?thesis using parse_other [OF ne] by simp
    qed
  qed
  have d: "canOpen st' = (if dispatched inp st = Some (CHR ''O'') then True
                        else if dispatched inp st = Some (CHR ''C'') then False
                        else canOpen st)" if "loop inp st = Some st'" for st'
  proof -
    from that obtain s1 where s1: "loop_serial inp st = Some s1" "loop_can inp s1 = Some st'"
      by (auto simp: loop_def split: Option.bind_splits)
    show ?thesis
      using loop_serial_canOpen [OF s1(1)] loop_can_canOpen [OF s1(2)] by simp
  qed
  show ?thesis
    using a b c d parse_canOpen by blast
qed

text \<open>
  Claim C8. A terminator (CR or LF) read while the buffer is empty changes nothing and
  dispatches no line. After any terminator has been processed, a second terminator
  dispatches no line and changes nothing, so CR LF and LF CR after a command dispatch at
  most one line.
\<close>

theorem terminator_on_empty_buffer:
  "(serial_in inp = Some c \<and> (c = CR \<or> c = LF) \<and> slcanLen st = 0 \<longrightarrow>
      loop_serial inp st = Some st \<and> dispatched inp st = None)
   \<and> (serial_in i1 = Some c1 \<and> (c1 = CR \<or> c1 = LF) \<and>
      serial_in i2 = Some c2 \<and> (c2 = CR \<or> c2 = LF) \<and> loop_serial i1 st = Some s1 \<longrightarrow>
      dispatched i2 s1 = None \<and> loop_serial i2 s1 = Some s1)"
proof -
  have a: "loop_serial inp st = Some st \<and> dispatched inp st = None"
    if "serial_in inp = Some c" "c = CR \<or> c = LF" "slcanLen st = 0" for inp c st
    using that by (auto simp: loop_serial_def dispatched_def)
  have b: "slcanLen s1 = 0"
    if "serial_in i1 = Some c1" "c1 = CR \<or> c1 = LF" "loop_serial i1 st = Some s1"
    using that by (auto simp: loop_serial_def split: if_splits Option.bind_splits)
  show ?thesis using a b by blast
qed


theorem bus_flag_frame_witness:
  "21 \<le> length (''C'' @ replicate 31 NUL) \<and> wf_frame zero_frame
   \<and> (\<exists>st'. parseSlcan zero_frame (''C'' @ replicate 31 NUL) globals_init = Some st'
            \<and> \<not> canOpen st')
   \<and> (\<exists>st'. loop \<lparr>serial_in = Some CR, can_rx = None, tx_uninit = zero_frame\<rparr>
                 (globals_init\<lparr>slcanBuf := ''C'' @ replicate 31 NUL, slcanLen := 1\<rparr>) = Some st'
            \<and> \<not> canOpen st')"
proof -
  let ?cmd = "''C'' @ replicate 31 NUL"
  let ?inp = "\<lparr>serial_in = Some CR, can_rx = None, tx_uninit = zero_frame\<rparr>"
  let ?st = "globals_init\<lparr>slcanBuf := ?cmd, slcanLen := 1\<rparr>"
  have h: "21 \<le> length ?cmd" "wf_frame zero_frame"
    by (simp_all add: wf_frame_def zero_frame_def)
  have d: "dispatched ?inp ?st = Some (CHR ''C'')"
    by (simp add: dispatched_def)
  have l: "\<exists>st'. loop ?inp ?st = Some st'"
    by (simp add: loop_def loop_serial_def loop_can_def parseSlcan_def slcan_switch_def rd_def
        CR_def LF_def)
  show ?thesis
    using h d l bus_flag_frame [where cmd = ?cmd and g = zero_frame and st = globals_init]
      bus_flag_frame [where inp = ?inp and st = ?st]
    by auto
qed

theorem terminator_on_empty_buffer_witness:
  "loop_serial \<lparr>serial_in = Some LF, can_rx = None, tx_uninit = zero_frame\<rparr> globals_init
     = Some globals_init
   \<and> (\<exists>s1. loop_serial \<lparr>serial_in = Some CR, can_rx = None, tx_uninit = zero_frame\<rparr>
               (globals_init\<lparr>slcanBuf := ''C'' @ replicate 31 NUL, slcanLen := 1\<rparr>) = Some s1
           \<and> serial_out s1 = [CR]
           \<and> loop_serial \<lparr>serial_in = Some LF, can_rx = None, tx_uninit = zero_frame\<rparr> s1
               = Some s1)"
proof -
  let ?cr = "\<lparr>serial_in = Some CR, can_rx = None, tx_uninit = zero_frame\<rparr>"
  let ?lf = "\<lparr>serial_in = Some LF, can_rx = None, tx_uninit = zero_frame\<rparr>"
  let ?st = "globals_init\<lparr>slcanBuf := ''C'' @ replicate 31 NUL, slcanLen := 1\<rparr>"
  have e: "slcanLen globals_init = 0" by (simp add: globals_init_def)
  obtain s1 where s1: "loop_serial ?cr ?st = Some s1" "serial_out s1 = [CR]"
    by (simp add: loop_serial_def parseSlcan_def slcan_switch_def rd_def Serial_write_def
        globals_init_def CR_def LF_def)
  show ?thesis
    using e s1 terminator_on_empty_buffer [where inp = ?lf and c = LF and st = globals_init]
      terminator_on_empty_buffer [where ?i1.0 = ?cr and ?c1.0 = CR and ?i2.0 = ?lf
        and ?c2.0 = LF and st = ?st and ?s1.0 = s1]
    by simp
qed


subsection \<open>The payload of a transmit command\<close>

text \<open>
  Claim C7. On a \<open>T\<close> or \<open>t\<close> line the declared length is the value of the character at
  offset 4, at most 15, and is stored in the frame as it is. The payload loop fills
  exactly the first \<open>min declared 8\<close> slots of the 8-byte array, slot \<open>j\<close> from the two
  characters at offsets \<open>5 + 2 * j\<close> and \<open>6 + 2 * j\<close>; the other slots keep what the
  uninitialised frame held, and no slot beyond the eighth is written. The result depends
  only on the first \<open>5 + 2 * min declared 8\<close> characters: with a declared length of 8 or
  more these are 16 payload characters, and whatever follows them is ignored.
\<close>

theorem payload_decode_capped:
  assumes "21 \<le> length cmd" and "cmd ! 0 = CHR ''T'' \<or> cmd ! 0 = CHR ''t''" and "wf_frame g"
  shows "\<exists>tx. parseSlcan g cmd st = Some (Serial_write [CR] (sendMessage tx st))
          \<and> can_dlc tx = ucast (strtoul16 [cmd ! 4, NUL])
          \<and> unat (can_dlc tx) \<le> 15
          \<and> length (data tx) = 8
          \<and> (\<forall>j<8. data tx ! j =
                (if j < min (unat (can_dlc tx)) 8
                 then ucast (strtoul16 [cmd ! (5 + 2 * j), cmd ! (5 + 2 * j + 1), NUL])
                 else data g ! j))
          \<and> (\<forall>cmd'. 21 \<le> length cmd'
                \<and> take (5 + 2 * min (unat (can_dlc tx)) 8) cmd'
                    = take (5 + 2 * min (unat (can_dlc tx)) 8) cmd
                \<longrightarrow> parseSlcan g cmd' st = parseSlcan g cmd st)"
proof -
  let ?dlc = "ucast (strtoul16 [cmd ! 4, NUL]) :: 8 word"
  let ?n = "5 + 2 * min (unat ?dlc) 8"
  have len: "?n \<le> length cmd"
    using assms(1) min_dlc_bound [of "cmd ! 4"] by linarith
  have g: "length (data g) = 8" using assms(3) by (simp add: wf_frame_def)
  from parse_transmit [OF assms(2) len g, of st]
  obtain d where d: "parseSlcan g cmd st =
              Some (Serial_write [CR] (sendMessage
                (g\<lparr>can_id := strtoul16 [cmd ! 1, cmd ! 2, cmd ! 3, NUL],
                   can_dlc := ?dlc, data := d\<rparr>) st))"
      "length d = 8"
      "\<forall>j<8. d ! j = (if j < unat ?dlc
                       then ucast (strtoul16 [cmd ! (5 + 2 * j), cmd ! (5 + 2 * j + 1), NUL])
                       else data g ! j)"
    by blast
  let ?tx = "g\<lparr>can_id := strtoul16 [cmd ! 1, cmd ! 2, cmd ! 3, NUL], can_dlc := ?dlc, data := d\<rparr>"
  have same: "parseSlcan g cmd' st = parseSlcan g cmd st"
    if h: "21 \<le> length cmd'" "take ?n cmd' = take ?n cmd" for cmd'
  proof -
    have nth: "cmd' ! k = cmd ! k" if "k < ?n" for k
    proof -
      have "take ?n cmd' ! k = take ?n cmd ! k" using h(2) by simp
      then show ?thesis using that by simp
    qed
    have c0: "cmd' ! 0 = cmd ! 0" and c1: "cmd' ! 1 = cmd ! 1" and c2: "cmd' ! 2 = cmd ! 2"
      and c3: "cmd' ! 3 = cmd ! 3" and c4: "cmd' ! 4 = cmd ! 4"
      by (simp_all add: nth)
    have len': "5 + 2 * min (unat (ucast (strtoul16 [cmd' ! 4, NUL]) :: 8 word)) 8 \<le> length cmd'"
      using h(1) min_dlc_bound [of "cmd' ! 4"] by linarith
    have t': "cmd' ! 0 = CHR ''T'' \<or> cmd' ! 0 = CHR ''t''"
      using assms(2) c0 by simp
    from parse_transmit [OF t' len' g, of st]
    obtain d' where d': "parseSlcan g cmd' st =
              Some (Serial_write [CR] (sendMessage
                (g\<lparr>can_id := strtoul16 [cmd ! 1, cmd ! 2, cmd ! 3, NUL],
                   can_dlc := ?dlc, data := d'\<rparr>) st))"
      "length d' = 8"
      "\<forall>j<8. d' ! j = (if j < unat ?dlc
                       then ucast (strtoul16 [cmd' ! (5 + 2 * j), cmd' ! (5 + 2 * j + 1), NUL])
                       else data g ! j)"
      unfolding c1 c2 c3 c4 by blast
    have "d' ! j = d ! j" if j: "j < 8" for j
    proof (cases "j < unat ?dlc")
      case True
      then have "5 + 2 * j < ?n" "5 + 2 * j + 1 < ?n" using j by (simp_all add: min_def)
      then have "cmd' ! (5 + 2 * j) = cmd ! (5 + 2 * j)"
          "cmd' ! (5 + 2 * j + 1) = cmd ! (5 + 2 * j + 1)"
        using nth by blast+
      then show ?thesis using d(3) d'(3) j True by simp
    next
      case False
      then show ?thesis using d(3) d'(3) j by simp
    qed
    then have "d' = d" using d(2) d'(2) by (intro nth_equalityI) auto
    then show ?thesis using d(1) d'(1) by simp
  qed
  have "unat ?dlc \<le> 15" by (rule dlc_le_15)
  moreover have "\<forall>j<8. d ! j =
                (if j < min (unat ?dlc) 8
                 then ucast (strtoul16 [cmd ! (5 + 2 * j), cmd ! (5 + 2 * j + 1), NUL])
                 else data g ! j)"
    using d(3) by simp
  ultimately show ?thesis
    using d(1,2) same by (intro exI [of _ ?tx]) simp
qed


theorem payload_decode_capped_witness:
  "21 \<le> length (''t1238AABBCCDDEEFF0011ZZ'' @ replicate 9 NUL) \<and> wf_frame zero_frame
   \<and> (\<exists>tx. parseSlcan zero_frame (''t1238AABBCCDDEEFF0011ZZ'' @ replicate 9 NUL) globals_init
               = Some (Serial_write [CR] (sendMessage tx globals_init))
           \<and> can_dlc tx = 8 \<and> data tx ! 7 = 0x11
           \<and> parseSlcan zero_frame (''t1238AABBCCDDEEFF0011'' @ replicate 11 NUL) globals_init
               = parseSlcan zero_frame (''t1238AABBCCDDEEFF0011ZZ'' @ replicate 9 NUL) globals_init)"
proof -
  let ?c = "''t1238AABBCCDDEEFF0011ZZ'' @ replicate 9 NUL"
  let ?c' = "''t1238AABBCCDDEEFF0011'' @ replicate 11 NUL"
  have h: "21 \<le> length ?c" "?c ! 0 = CHR ''T'' \<or> ?c ! 0 = CHR ''t''" "wf_frame zero_frame"
    by (simp_all add: wf_frame_def zero_frame_def)
  have n: "(ucast (strtoul16 [?c ! 4, NUL]) :: 8 word) = 8"
    by (simp add: strtoul16_def c_str_def NUL_def isspace_def hex_val_def)
  have b: "(ucast (strtoul16 [?c ! (5 + 2 * 7), ?c ! (5 + 2 * 7 + 1), NUL]) :: 8 word) = 0x11"
    by (simp add: strtoul16_def c_str_def NUL_def isspace_def hex_val_def)
  have t: "21 \<le> length ?c'" "take 21 ?c' = take 21 ?c"
    by simp_all
  from payload_decode_capped [OF h, of globals_init]
  obtain tx where tx: "parseSlcan zero_frame ?c globals_init
               = Some (Serial_write [CR] (sendMessage tx globals_init))"
    "can_dlc tx = ucast (strtoul16 [?c ! 4, NUL])"
    "\<forall>j<8. data tx ! j =
                (if j < min (unat (can_dlc tx)) 8
                 then ucast (strtoul16 [?c ! (5 + 2 * j), ?c ! (5 + 2 * j + 1), NUL])
                 else data zero_frame ! j)"
    "\<forall>cmd'. 21 \<le> length cmd'
                \<and> take (5 + 2 * min (unat (can_dlc tx)) 8) cmd'
                    = take (5 + 2 * min (unat (can_dlc tx)) 8) ?c
                \<longrightarrow> parseSlcan zero_frame cmd' globals_init = parseSlcan zero_frame ?c globals_init"
    by blast
  have dlc: "can_dlc tx = 8" using tx(2) n by simp
  have "data tx ! 7 = ucast (strtoul16 [?c ! (5 + 2 * 7), ?c ! (5 + 2 * 7 + 1), NUL])"
    using tx(3) [rule_format, of 7] dlc by simp
  then have d7: "data tx ! 7 = 0x11" using b by simp
  have "parseSlcan zero_frame ?c' globals_init = parseSlcan zero_frame ?c globals_init"
    using tx(4) [rule_format, of ?c'] t dlc by simp
  with h(1,3) tx(1) dlc d7 show ?thesis by blast
qed


subsection \<open>Encoding a received frame\<close>

lemma hexchar_upper: "d < 16 \<Longrightarrow> hexchar d = hex_upper d"
proof -
  assume "d < 16"
  then have "d = 0 \<or> d = 1 \<or> d = 2 \<or> d = 3 \<or> d = 4 \<or> d = 5 \<or> d = 6 \<or> d = 7 \<or> d = 8
      \<or> d = 9 \<or> d = 10 \<or> d = 11 \<or> d = 12 \<or> d = 13 \<or> d = 14 \<or> d = 15"
    by arith
  then show ?thesis
    by (auto simp: hexchar_def hex_upper_def char_of_eq_iff)
qed

lemma hex_upper_mod: "hex_upper (n mod 16) = hex_upper n"
  by (simp add: hex_upper_def)

lemma unat_id_mask: "unat (x AND 0x7FF :: 32 word) < 2048"
proof -
  have "x AND 0x7FF \<le> 0x7FF" by (rule word_and_le1)
  then have "unat (x AND 0x7FF) \<le> unat (0x7FF :: 32 word)" by (simp add: word_le_nat_alt)
  then show ?thesis by simp
qed

lemma unat_dlc_mask: "unat (x AND 0x0F :: 8 word) < 16"
proof -
  have "x AND 0x0F \<le> 0x0F" by (rule word_and_le1)
  then have "unat (x AND 0x0F) \<le> unat (0x0F :: 8 word)" by (simp add: word_le_nat_alt)
  then show ?thesis by simp
qed

lemma unat_byte: "unat (b :: 8 word) < 256"
  using unsigned_less [of b, where 'a = nat] by simp

lemma sprintf_X_Suc0: "n < 16 \<Longrightarrow> sprintf_X (Suc 0) n = [hexchar n]"
  using sprintf_X_1 [of n] by simp

lemma slcan_line_hexchar:
  "slcan_line f =
     [CHR ''t'', hexchar (unat (can_id f AND 0x7FF) div 256),
      hexchar (unat (can_id f AND 0x7FF) div 16 mod 16),
      hexchar (unat (can_id f AND 0x7FF) mod 16), hexchar (unat (can_dlc f AND 0x0F))]
     @ concat (map (\<lambda>b. [hexchar (unat b div 16), hexchar (unat b mod 16)])
                 (take (unat (can_dlc f)) (data f)))"
proof -
  have a: "unat (can_id f AND 0x7FF) div 256 < 16"
    using unat_id_mask [of "can_id f"] by simp
  have b: "unat b div 16 < 16" for b :: "8 word"
    using unat_byte [of b] by simp
  show ?thesis
    by (simp add: slcan_line_def Let_def hexchar_upper a b unat_dlc_mask hex_upper_mod)
qed

lemma sendSlcanFrame_std:
  assumes "can_id f AND CAN_EFF_FLAG = 0" and "can_dlc f \<le> 8" and "wf_frame f"
  shows "sendSlcanFrame f st = Some (Serial_write (slcan_line f @ [CR]) st)"
proof -
  have n: "unat (can_dlc f) \<le> 8" using assms(2) by (simp add: word_le_nat_alt)
  have w: "length (data f) = 8" using assms(3) by (simp add: wf_frame_def)
  let ?hd = "[CHR ''t''] @ sprintf_0X 3 (unat (can_id f AND 0x7FF))
                      @ sprintf_X 1 (unat (can_dlc f AND 0x0F))"
  have l: "length ?hd = 5 + 2 * 0"
    using unat_id_mask [of "can_id f"] unat_dlc_mask [of "can_dlc f"]
    by (simp add: sprintf_0X_3 sprintf_X_Suc0)
  have "put_data f 0 ?hd = Some (?hd @ concat (map (\<lambda>b. [hexchar (unat b div 16), hexchar (unat b mod 16)])
                          (drop 0 (take (unat (can_dlc f)) (data f)))))"
    by (rule put_data_enc [OF n w _ l]) simp
  then show ?thesis
    using assms(1) unat_id_mask [of "can_id f"] unat_dlc_mask [of "can_dlc f"]
    by (simp add: sendSlcanFrame_def slcan_line_hexchar sprintf_0X_3 sprintf_X_Suc0)
qed

text \<open>
  Claim C6. For a frame without the extended-identifier flag, with a length code of at
  most 8, \<open>sendSlcanFrame\<close> writes exactly the line of the wire format followed by one
  carriage return: \<open>t\<close>, three upper-case zero-padded digits of the identifier masked
  with \<open>0x7FF\<close>, one digit of the length masked with \<open>0x0F\<close>, and two digits for each
  payload byte. For a frame with the flag set it writes nothing and changes nothing.
\<close>

theorem encode_received_frame:
  "(can_id f AND CAN_EFF_FLAG = 0 \<and> can_dlc f \<le> 8 \<and> wf_frame f \<longrightarrow>
      sendSlcanFrame f st = Some (st\<lparr>serial_out := serial_out st @ slcan_line f @ [CR]\<rparr>)
      \<and> length (slcan_line f) = 5 + 2 * unat (can_dlc f))
   \<and> (can_id f AND CAN_EFF_FLAG \<noteq> 0 \<longrightarrow> sendSlcanFrame f st = Some st)"
proof -
  have "length (slcan_line f) = 5 + 2 * unat (can_dlc f)"
    if "can_dlc f \<le> 8" "wf_frame f"
  proof -
    have "unat (can_dlc f) \<le> 8" using that(1) by (simp add: word_le_nat_alt)
    moreover have "length (concat (map (\<lambda>b. [p b, q b]) xs)) = 2 * length xs"
      for p q :: "8 word \<Rightarrow> char" and xs
      by (induction xs) simp_all
    ultimately show ?thesis using that(2)
      by (simp add: slcan_line_def Let_def wf_frame_def)
  qed
  then show ?thesis
    using sendSlcanFrame_std [of f st]
    by (auto simp: Serial_write_def sendSlcanFrame_def)
qed


theorem encode_received_frame_witness:
  "sendSlcanFrame \<lparr>can_id = 0x123, can_dlc = 3, data = [1, 2, 3, 0, 0, 0, 0, 0]\<rparr> globals_init
     = Some (globals_init\<lparr>serial_out := ''t1233010203'' @ [CR]\<rparr>)
   \<and> sendSlcanFrame \<lparr>can_id = 0x80000123, can_dlc = 3, data = [1, 2, 3, 0, 0, 0, 0, 0]\<rparr>
       globals_init = Some globals_init"
proof -
  let ?f = "\<lparr>can_id = 0x123, can_dlc = 3, data = [1, 2, 3, 0, 0, 0, 0, 0]\<rparr>"
  let ?x = "\<lparr>can_id = 0x80000123, can_dlc = 3, data = [1, 2, 3, 0, 0, 0, 0, 0]\<rparr>"
  have h: "can_id ?f AND CAN_EFF_FLAG = 0" "can_dlc ?f \<le> 8" "wf_frame ?f"
    by (simp_all add: CAN_EFF_FLAG_def wf_frame_def)
  have x: "can_id ?x AND CAN_EFF_FLAG \<noteq> 0"
    by (simp add: CAN_EFF_FLAG_def)
  have l: "slcan_line ?f = ''t1233010203''"
    by (simp add: slcan_line_def hex_upper_def)
  have o: "serial_out globals_init = []"
    by (simp add: globals_init_def)
  show ?thesis
    using h x l o encode_received_frame [of ?f globals_init]
      encode_received_frame [of ?x globals_init]
    by simp
qed


subsection \<open>Encoding, then decoding\<close>

lemma concat_pairs_nth:
  "j < length xs \<Longrightarrow>
   concat (map (\<lambda>b. [p b, q b]) xs) ! (2 * j) = p (xs ! j)
   \<and> concat (map (\<lambda>b. [p b, q b]) xs) ! (2 * j + 1) = q (xs ! j)"
proof (induction xs arbitrary: j)
  case Nil
  then show ?case by simp
next
  case (Cons x xs)
  show ?case
  proof (cases j)
    case 0
    then show ?thesis by simp
  next
    case (Suc k)
    then have "k < length xs" using Cons.prems by simp
    from Cons.IH [OF this] Suc show ?thesis by simp
  qed
qed

lemma concat_pairs_length: "length (concat (map (\<lambda>b. [p b, q b]) xs)) = 2 * length xs"
  by (induction xs) simp_all

lemma std_id_mask: "(x :: 32 word) \<le> 0x7FF \<Longrightarrow> x AND 0x7FF = x"
proof -
  assume "x \<le> 0x7FF"
  then have "x < 2 ^ 11" by (simp add: word_le_nat_alt word_less_nat_alt)
  then have "x AND mask 11 = x" by (rule less_mask_eq)
  then show ?thesis by (simp add: mask_eq_exp_minus_1)
qed

lemma std_id_no_eff: "(x :: 32 word) \<le> 0x7FF \<Longrightarrow> x AND CAN_EFF_FLAG = 0"
proof -
  assume a: "x \<le> 0x7FF"
  have "x AND CAN_EFF_FLAG = (x AND 0x7FF) AND 0x80000000"
    using std_id_mask [OF a] by (simp add: CAN_EFF_FLAG_def)
  also have "\<dots> = x AND (0x7FF AND 0x80000000)"
    by (simp only: and.assoc)
  also have "\<dots> = 0" by simp
  finally show ?thesis .
qed

lemma dlc_mask: "(x :: 8 word) \<le> 8 \<Longrightarrow> x AND 0x0F = x"
proof -
  assume "x \<le> 8"
  then have "x < 2 ^ 4" by (simp add: word_le_nat_alt word_less_nat_alt)
  then have "x AND mask 4 = x" by (rule less_mask_eq)
  then show ?thesis by (simp add: mask_eq_exp_minus_1)
qed

lemma digits3: "(n div 256 * 16 + n div 16 mod 16) * 16 + n mod 16 = (n :: nat)"
proof -
  have "n div 256 = n div 16 div 16" by (simp add: div_mult2_eq [symmetric])
  then have "(n div 256 * 16 + n div 16 mod 16) = n div 16" by simp
  then show ?thesis by simp
qed

lemma digits2: "n div 16 * 16 + n mod 16 = (n :: nat)"
  by simp


text \<open>
  Claim C1. Take a frame with an identifier of at most \<open>0x7FF\<close> and a length code of
  at most 8. \<open>sendSlcanFrame\<close> writes a line and a carriage return; \<open>parseSlcan\<close> on
  that line, whatever follows it in the array, takes the transmit branch and hands the
  controller a frame with the same identifier, the same length code and the same
  first \<open>can_dlc\<close> payload bytes.
\<close>

theorem encode_decode_roundtrip:
  assumes id: "can_id f \<le> 0x7FF" and dlc: "can_dlc f \<le> 8"
    and wf: "wf_frame f" and wg: "wf_frame g"
  shows "\<exists>line tx. sendSlcanFrame f st0 = Some (Serial_write (line @ [CR]) st0)
           \<and> (\<forall>rest st. parseSlcan g (line @ rest) st
                            = Some (Serial_write [CR] (sendMessage tx st)))
           \<and> can_id tx = can_id f \<and> can_dlc tx = can_dlc f
           \<and> take (unat (can_dlc f)) (data tx) = take (unat (can_dlc f)) (data f)"
proof -
  let ?n = "unat (can_dlc f)"
  let ?i = "unat (can_id f)"
  let ?pl = "concat (map (\<lambda>b. [hexchar (unat b div 16), hexchar (unat b mod 16)])
                 (take ?n (data f)))"
  let ?hd = "[CHR ''t'', hexchar (?i div 256), hexchar (?i div 16 mod 16),
              hexchar (?i mod 16), hexchar ?n]"
  let ?d0 = "map (\<lambda>j. if j < ?n then data f ! j else data g ! j) [0..<8]"
  let ?tx = "g\<lparr>can_id := can_id f, can_dlc := can_dlc f, data := ?d0\<rparr>"
  have n8: "?n \<le> 8" using dlc by (simp add: word_le_nat_alt)
  have lf: "length (data f) = 8" and lg: "length (data g) = 8"
    using wf wg by (simp_all add: wf_frame_def)
  have i: "?i < 2048" using unat_id_mask [of "can_id f"] std_id_mask [OF id] by simp
  have line: "slcan_line f = ?hd @ ?pl"
    by (simp add: slcan_line_hexchar std_id_mask [OF id] dlc_mask [OF dlc])
  have enc: "sendSlcanFrame f st0 = Some (Serial_write (slcan_line f @ [CR]) st0)"
    by (rule sendSlcanFrame_std [OF std_id_no_eff [OF id] dlc wf])
  have lpl: "length ?pl = 2 * ?n"
    using n8 lf by (simp add: concat_pairs_length)
  have dec: "parseSlcan g (slcan_line f @ rest) st = Some (Serial_write [CR] (sendMessage ?tx st))"
    for rest st
  proof -
    let ?cmd = "slcan_line f @ rest"
    have c: "?cmd = ?hd @ ?pl @ rest" by (simp add: line)
    have c0: "?cmd ! 0 = CHR ''t''" and c1: "?cmd ! 1 = hexchar (?i div 256)"
      and c2: "?cmd ! 2 = hexchar (?i div 16 mod 16)" and c3: "?cmd ! 3 = hexchar (?i mod 16)"
      and c4: "?cmd ! 4 = hexchar ?n"
      by (simp_all add: c)
    have idv: "strtoul16 [?cmd ! 1, ?cmd ! 2, ?cmd ! 3, NUL] = can_id f"
    proof -
      have "?i div 256 < 16" using i by simp
      then have "strtoul16 [?cmd ! 1, ?cmd ! 2, ?cmd ! 3, NUL]
                  = of_nat ((?i div 256 * 16 + ?i div 16 mod 16) * 16 + ?i mod 16)"
        unfolding c1 c2 c3 by (intro strtoul16_hex3) simp_all
      then show ?thesis by (simp only: digits3 of_nat_unat ucast_id)
    qed
    have dlcv: "(ucast (strtoul16 [?cmd ! 4, NUL]) :: 8 word) = can_dlc f"
    proof -
      have e: "strtoul16 [?cmd ! 4, NUL] = of_nat ?n"
        unfolding c4 using n8 by (intro strtoul16_hex1) simp
      have "?n < 256" using n8 by simp
      then have "(ucast (of_nat ?n :: 32 word) :: 8 word) = of_nat ?n"
        by (rule ucast_of_nat_small)
      then have "(ucast (strtoul16 [?cmd ! 4, NUL]) :: 8 word) = of_nat ?n"
        by (simp only: e)
      then show ?thesis by simp
    qed
    have len: "5 + 2 * min (unat (ucast (strtoul16 [?cmd ! 4, NUL]) :: 8 word)) 8 \<le> length ?cmd"
      unfolding dlcv using n8 lpl by (simp add: c)
    from parse_transmit [OF _ len lg, of st] c0
    obtain d where d: "parseSlcan g ?cmd st =
              Some (Serial_write [CR] (sendMessage
                (g\<lparr>can_id := can_id f, can_dlc := can_dlc f, data := d\<rparr>) st))"
      "length d = 8"
      "\<forall>j<8. d ! j = (if j < ?n
                       then ucast (strtoul16 [?cmd ! (5 + 2 * j), ?cmd ! (5 + 2 * j + 1), NUL])
                       else data g ! j)"
      unfolding idv dlcv by auto
    have "d ! j = ?d0 ! j" if j: "j < 8" for j
    proof (cases "j < ?n")
      case False
      then show ?thesis using d(3) j by simp
    next
      case True
      let ?b = "data f ! j"
      have jl: "j < length (take ?n (data f))" using True lf n8 by simp
      have tk: "take ?n (data f) ! j = ?b" using True by simp
      have p0: "?cmd ! (5 + 2 * j) = hexchar (unat ?b div 16)"
        and p1: "?cmd ! (5 + 2 * j + 1) = hexchar (unat ?b mod 16)"
      proof -
        have a: "2 * j < length ?pl" "2 * j + 1 < length ?pl"
          using True lpl by simp_all
        have "?cmd ! (5 + 2 * j) = (?pl @ rest) ! (2 * j)"
          by (simp add: c nth_append)
        also have "\<dots> = ?pl ! (2 * j)" using a(1) by (simp only: nth_append if_True)
        finally show "?cmd ! (5 + 2 * j) = hexchar (unat ?b div 16)"
          using concat_pairs_nth [OF jl, of "\<lambda>b. hexchar (unat b div 16)"
              "\<lambda>b. hexchar (unat b mod 16)"] tk by simp
        have "?cmd ! (5 + 2 * j + 1) = (?pl @ rest) ! (2 * j + 1)"
          by (simp add: c nth_append)
        also have "\<dots> = ?pl ! (2 * j + 1)" using a(2) by (simp only: nth_append if_True)
        finally show "?cmd ! (5 + 2 * j + 1) = hexchar (unat ?b mod 16)"
          using concat_pairs_nth [OF jl, of "\<lambda>b. hexchar (unat b div 16)"
              "\<lambda>b. hexchar (unat b mod 16)"] tk by simp
      qed
      have hi: "unat ?b div 16 < 16" using unat_byte [of ?b] by simp
      have "strtoul16 [?cmd ! (5 + 2 * j), ?cmd ! (5 + 2 * j + 1), NUL]
              = of_nat (unat ?b div 16 * 16 + unat ?b mod 16)"
        unfolding p0 p1 using hi by (intro strtoul16_hex2) simp_all
      then have e: "strtoul16 [?cmd ! (5 + 2 * j), ?cmd ! (5 + 2 * j + 1), NUL] = of_nat (unat ?b)"
        by (simp only: digits2)
      have "(ucast (of_nat (unat ?b) :: 32 word) :: 8 word) = of_nat (unat ?b)"
        using unat_byte [of ?b] by (rule ucast_of_nat_small)
      then have "(ucast (strtoul16 [?cmd ! (5 + 2 * j), ?cmd ! (5 + 2 * j + 1), NUL]) :: 8 word)
                  = of_nat (unat ?b)"
        by (simp only: e)
      then have "(ucast (strtoul16 [?cmd ! (5 + 2 * j), ?cmd ! (5 + 2 * j + 1), NUL]) :: 8 word) = ?b"
        by simp
      then show ?thesis using d(3) j True by simp
    qed
    then have "d = ?d0" using d(2) by (intro nth_equalityI) auto
    with d(1) show ?thesis by simp
  qed
  have pay: "take ?n (data ?tx) = take ?n (data f)"
    using n8 lf by (intro nth_equalityI) auto
  show ?thesis
    using enc dec pay by (intro exI [of _ "slcan_line f"] exI [of _ ?tx]) simp
qed


theorem encode_decode_roundtrip_witness:
  "(0x123 :: 32 word) \<le> 0x7FF \<and> (3 :: 8 word) \<le> 8
   \<and> wf_frame \<lparr>can_id = 0x123, can_dlc = 3, data = [1, 2, 3, 0, 0, 0, 0, 0]\<rparr>
   \<and> wf_frame zero_frame
   \<and> (\<exists>line tx.
         sendSlcanFrame \<lparr>can_id = 0x123, can_dlc = 3, data = [1, 2, 3, 0, 0, 0, 0, 0]\<rparr>
           globals_init = Some (Serial_write (line @ [CR]) globals_init)
         \<and> (\<forall>rest st. parseSlcan zero_frame (line @ rest) st
                          = Some (Serial_write [CR] (sendMessage tx st)))
         \<and> can_id tx = 0x123 \<and> can_dlc tx = 3 \<and> take 3 (data tx) = [1, 2, 3])"
proof -
  let ?f = "\<lparr>can_id = 0x123, can_dlc = 3, data = [1, 2, 3, 0, 0, 0, 0, 0]\<rparr>"
  have h: "can_id ?f \<le> 0x7FF" "can_dlc ?f \<le> 8" "wf_frame ?f" "wf_frame zero_frame"
    by (simp_all add: wf_frame_def zero_frame_def)
  show ?thesis
    using h encode_decode_roundtrip [OF h, of globals_init] by simp
qed


subsection \<open>Forwarding is gated by the flag\<close>

lemma loop_serial_no_rx: "loop_serial (no_rx inp) st = loop_serial inp st"
  by (cases "serial_in inp") (simp_all add: loop_serial_def no_rx_def)

lemma loop_closed_step:
  assumes "\<not> canOpen st" and "dispatched inp st \<noteq> Some (CHR ''O'')"
  shows "loop (no_rx inp) st = loop inp st"
    and "loop inp st = Some st' \<Longrightarrow> \<not> canOpen st'"
proof -
  have closed: "\<not> canOpen s1" if "loop_serial inp st = Some s1" for s1
    using loop_serial_canOpen [OF that] assms by (simp split: if_splits)
  show "loop (no_rx inp) st = loop inp st"
  proof (cases "loop_serial inp st")
    case None
    then show ?thesis by (simp add: loop_def loop_serial_no_rx)
  next
    case (Some s1)
    with closed [OF Some] show ?thesis
      by (simp add: loop_def loop_serial_no_rx loop_can_def)
  qed
  show "\<not> canOpen st'" if "loop inp st = Some st'"
  proof -
    from that obtain s1 where s1: "loop_serial inp st = Some s1" "loop_can inp s1 = Some st'"
      by (auto simp: loop_def split: Option.bind_splits)
    from closed [OF s1(1)] loop_can_canOpen [OF s1(2)] show ?thesis by simp
  qed
qed

lemma loop_run_closed:
  "\<not> canOpen st \<Longrightarrow> no_open_cmd inps st \<Longrightarrow>
   loop_run (map no_rx inps) st = loop_run inps st
   \<and> (\<forall>st'. loop_run inps st = Some st' \<longrightarrow> \<not> canOpen st')"
proof (induction inps arbitrary: st)
  case Nil
  then show ?case by simp
next
  case (Cons inp inps)
  from Cons.prems have d: "dispatched inp st \<noteq> Some (CHR ''O'')" by simp
  note step = loop_closed_step [OF Cons.prems(1) d]
  show ?case
  proof (cases "loop inp st")
    case None
    then show ?thesis using step(1) by simp
  next
    case (Some s)
    have "\<not> canOpen s" using step(2) [OF Some] .
    moreover have "no_open_cmd inps s" using Cons.prems(2) Some by simp
    ultimately show ?thesis
      using Cons.IH [of s] Some step(1) by simp
  qed
qed

lemma loop_canOpen:
  assumes "loop inp st = Some st'"
  shows "canOpen st' = (if dispatched inp st = Some (CHR ''O'') then True
                        else if dispatched inp st = Some (CHR ''C'') then False
                        else canOpen st)"
proof -
  from assms obtain s1 where s1: "loop_serial inp st = Some s1" "loop_can inp s1 = Some st'"
    by (auto simp: loop_def split: Option.bind_splits)
  show ?thesis
    using loop_serial_canOpen [OF s1(1)] loop_can_canOpen [OF s1(2)] by simp
qed

lemma loop_serial_dispatch_flag:
  assumes wf: "wf_bridge st"
    and d: "dispatched inp st = Some (CHR ''O'') \<or> dispatched inp st = Some (CHR ''C'')"
  shows "\<exists>s1. loop_serial inp st = Some s1
            \<and> canOpen s1 = (dispatched inp st = Some (CHR ''O''))
            \<and> serial_out s1 = serial_out st @ [CR]"
proof -
  from d obtain c where c: "serial_in inp = Some c" "c = CR \<or> c = LF" "0 < slcanLen st"
    and a: "slcanBuf st ! 0 = CHR ''O'' \<or> slcanBuf st ! 0 = CHR ''C''"
    and e: "dispatched inp st = Some (slcanBuf st ! 0)"
    by (auto simp: dispatched_def split: option.splits if_splits)
  have l: "length (slcanBuf st) = 32" "slcanLen st < 32"
    using wf by (simp_all add: wf_bridge_def)
  let ?cmd = "(slcanBuf st)[slcanLen st := NUL]"
  let ?st1 = "st\<lparr>slcanBuf := ?cmd\<rparr>"
  have ne: "?cmd \<noteq> []" using l by auto
  have c0: "?cmd ! 0 = slcanBuf st ! 0" using c(3) by simp
  have "\<exists>s2. parseSlcan (tx_uninit inp) ?cmd ?st1 = Some s2
          \<and> canOpen s2 = (slcanBuf st ! 0 = CHR ''O'')
          \<and> serial_out s2 = serial_out st @ [CR]"
  proof (cases "slcanBuf st ! 0 = CHR ''O''")
    case True
    then show ?thesis
      using parse_open [OF ne, of "tx_uninit inp" ?st1] c0 by (simp add: Serial_write_def)
  next
    case False
    then have "?cmd ! 0 = CHR ''C''" using a c0 by simp
    then show ?thesis
      using parse_close [OF ne, of "tx_uninit inp" ?st1] False by (simp add: Serial_write_def)
  qed
  then obtain s2 where s2: "parseSlcan (tx_uninit inp) ?cmd ?st1 = Some s2"
    "canOpen s2 = (slcanBuf st ! 0 = CHR ''O'')" "serial_out s2 = serial_out st @ [CR]"
    by blast
  have "loop_serial inp st = Some (s2\<lparr>slcanLen := 0\<rparr>)"
    using c l s2(1) by (auto simp: loop_serial_def)
  then show ?thesis using s2(2,3) e by simp
qed

lemma loop_dispatch_close:
  assumes "wf_bridge st" and "dispatched inp st = Some (CHR ''C'')"
  shows "\<exists>st'. loop inp st = Some st' \<and> \<not> canOpen st'
            \<and> serial_out st' = serial_out st @ [CR]"
proof -
  from loop_serial_dispatch_flag [OF assms(1), of inp] assms(2)
  obtain s1 where s1: "loop_serial inp st = Some s1" "\<not> canOpen s1"
    "serial_out s1 = serial_out st @ [CR]"
    by auto
  then show ?thesis by (simp add: loop_def loop_can_def)
qed

lemma loop_dispatch_open:
  assumes "wf_bridge st" and "dispatched inp st = Some (CHR ''O'')"
    and "can_rx inp = Some f"
    and "can_id f AND CAN_EFF_FLAG = 0" and "can_dlc f \<le> 8" and "wf_frame f"
  shows "\<exists>st'. loop inp st = Some st' \<and> canOpen st'
            \<and> serial_out st' = serial_out st @ [CR] @ slcan_line f @ [CR]"
proof -
  from loop_serial_dispatch_flag [OF assms(1), of inp] assms(2)
  obtain s1 where s1: "loop_serial inp st = Some s1" "canOpen s1"
    "serial_out s1 = serial_out st @ [CR]"
    by auto
  then show ?thesis
    using assms(3) sendSlcanFrame_std [OF assms(4,5,6), of "s1\<lparr>rxFrame := f\<rparr>"]
    by (simp add: loop_def loop_can_def Serial_write_def)
qed

lemma loop_close_step:
  assumes "dispatched inp st = Some (CHR ''C'')"
  shows "loop (no_rx inp) st = loop inp st"
    and "loop inp st = Some st' \<Longrightarrow> \<not> canOpen st'"
proof -
  have closed: "\<not> canOpen s1" if "loop_serial inp st = Some s1" for s1
    using loop_serial_canOpen [OF that] assms by simp
  show "loop (no_rx inp) st = loop inp st"
  proof (cases "loop_serial inp st")
    case None
    then show ?thesis by (simp add: loop_def loop_serial_no_rx)
  next
    case (Some s1)
    with closed [OF Some] show ?thesis
      by (simp add: loop_def loop_serial_no_rx loop_can_def)
  qed
  show "\<not> canOpen st'" if "loop inp st = Some st'"
    using loop_canOpen [OF that] assms by simp
qed

lemma run_after_close:
  assumes "dispatched c st0 = Some (CHR ''C'')" and "no_open_cmd (c # inps) st0"
  shows "loop_run (map no_rx (c # inps)) st0 = loop_run (c # inps) st0
         \<and> (\<forall>st'. loop_run (c # inps) st0 = Some st' \<longrightarrow> \<not> canOpen st')"
proof (cases "loop c st0")
  case None
  then show ?thesis using loop_close_step(1) [OF assms(1)] by simp
next
  case (Some s)
  have "\<not> canOpen s" using loop_close_step(2) [OF assms(1) Some] .
  moreover have "no_open_cmd inps s" using assms(2) Some by simp
  ultimately show ?thesis
    using loop_run_closed [of s inps] Some loop_close_step(1) [OF assms(1)] by simp
qed

lemma loop_run_open:
  "canOpen st \<Longrightarrow> no_close_cmd inps st \<Longrightarrow> loop_run inps st = Some st' \<Longrightarrow> canOpen st'"
proof (induction inps arbitrary: st)
  case Nil
  then show ?case by simp
next
  case (Cons inp inps)
  from Cons.prems(3) obtain s where s: "loop inp st = Some s" "loop_run inps s = Some st'"
    by (auto split: option.splits)
  have "dispatched inp st \<noteq> Some (CHR ''C'')" using Cons.prems(2) by simp
  then have "canOpen s" using loop_canOpen [OF s(1)] Cons.prems(1) by simp
  moreover have "no_close_cmd inps s" using Cons.prems(2) s(1) by simp
  ultimately show ?case using Cons.IH s(2) by blast
qed

lemma run_after_open:
  assumes "dispatched o_pass st0 = Some (CHR ''O'')" and "no_close_cmd (o_pass # inps) st0"
    and "loop_run (o_pass # inps) st0 = Some st"
  shows "canOpen st"
proof -
  from assms(3) obtain s where s: "loop o_pass st0 = Some s" "loop_run inps s = Some st"
    by (auto split: option.splits)
  have "canOpen s" using loop_canOpen [OF s(1)] assms(1) by simp
  moreover have "no_close_cmd inps s" using assms(2) s(1) by simp
  ultimately show ?thesis using loop_run_open s(2) by blast
qed


text \<open>
  Claim C4. A \<open>C\<close> line leaves the flag false and an \<open>O\<close> line leaves it true, both in
  \<open>parseSlcan\<close> and in the pass of \<open>loop\<close> that dispatches the line. The pass that
  dispatches a \<open>C\<close> line writes the acknowledgment and nothing else, even with a frame
  pending; the pass that dispatches an \<open>O\<close> line writes the acknowledgment and then
  the line of a pending standard frame. A run that starts with the pass dispatching a
  \<open>C\<close> line, and in which no pass dispatches an \<open>O\<close> line, ends in the state it would
  reach if the controller never had a frame to deliver, with the flag false: no received
  frame is forwarded. The same holds of such a run from any state with the flag false.
  After a run that starts with the pass dispatching an \<open>O\<close> line and in which no pass
  dispatches a \<open>C\<close> line, the flag is true, and a next pass that does not dispatch a
  \<open>C\<close> line writes the line of a pending standard frame with a length code of at most
  8. In a single pass, when the flag is false after step 1 the pass ends in the state
  step 1 left.
\<close>

theorem forwarding_gated_by_flag:
  "(cmd \<noteq> [] \<and> cmd ! 0 = CHR ''C'' \<longrightarrow>
      (\<exists>st'. parseSlcan g cmd st = Some st' \<and> \<not> canOpen st'))
   \<and> (cmd \<noteq> [] \<and> cmd ! 0 = CHR ''O'' \<longrightarrow>
      (\<exists>st'. parseSlcan g cmd st = Some st' \<and> canOpen st'))
   \<and> (\<not> canOpen st \<and> no_open_cmd inps st \<longrightarrow>
      loop_run inps st = loop_run (map no_rx inps) st
      \<and> (\<forall>st'. loop_run inps st = Some st' \<longrightarrow> \<not> canOpen st'))
   \<and> (loop_serial inp st = Some s1 \<and> \<not> canOpen s1 \<longrightarrow> loop inp st = Some s1)
   \<and> (loop_serial inp st = Some s1 \<and> canOpen s1 \<and> can_rx inp = Some f
       \<and> can_id f AND CAN_EFF_FLAG = 0 \<and> can_dlc f \<le> 8 \<and> wf_frame f \<longrightarrow>
      loop inp st
        = Some (s1\<lparr>rxFrame := f, serial_out := serial_out s1 @ slcan_line f @ [CR]\<rparr>))
   \<and> (wf_bridge st \<and> dispatched inp st = Some (CHR ''C'') \<longrightarrow>
      (\<exists>st'. loop inp st = Some st' \<and> \<not> canOpen st'
         \<and> serial_out st' = serial_out st @ [CR]))
   \<and> (wf_bridge st \<and> dispatched inp st = Some (CHR ''O'') \<and> can_rx inp = Some f
       \<and> can_id f AND CAN_EFF_FLAG = 0 \<and> can_dlc f \<le> 8 \<and> wf_frame f \<longrightarrow>
      (\<exists>st'. loop inp st = Some st' \<and> canOpen st'
         \<and> serial_out st' = serial_out st @ [CR] @ slcan_line f @ [CR]))
   \<and> (dispatched c st0 = Some (CHR ''C'') \<and> no_open_cmd (c # inps) st0 \<longrightarrow>
      loop_run (c # inps) st0 = loop_run (map no_rx (c # inps)) st0
      \<and> (\<forall>st'. loop_run (c # inps) st0 = Some st' \<longrightarrow> \<not> canOpen st'))
   \<and> (dispatched opn st0 = Some (CHR ''O'') \<and> no_close_cmd (opn # inps) st0
       \<and> loop_run (opn # inps) st0 = Some st2
       \<and> dispatched p st2 \<noteq> Some (CHR ''C'') \<and> loop_serial p st2 = Some s3
       \<and> can_rx p = Some f
       \<and> can_id f AND CAN_EFF_FLAG = 0 \<and> can_dlc f \<le> 8 \<and> wf_frame f \<longrightarrow>
      canOpen st2
      \<and> loop p st2
          = Some (s3\<lparr>rxFrame := f, serial_out := serial_out s3 @ slcan_line f @ [CR]\<rparr>))"
proof -
  have a: "\<exists>st'. parseSlcan g cmd st = Some st' \<and> \<not> canOpen st'"
    if "cmd \<noteq> []" "cmd ! 0 = CHR ''C''"
    using parse_close [OF that, of g st] by (simp add: Serial_write_def)
  have b: "\<exists>st'. parseSlcan g cmd st = Some st' \<and> canOpen st'"
    if "cmd \<noteq> []" "cmd ! 0 = CHR ''O''"
    using parse_open [OF that, of g st] by (simp add: Serial_write_def)
  have c: "loop_run inps st = loop_run (map no_rx inps) st
      \<and> (\<forall>st'. loop_run inps st = Some st' \<longrightarrow> \<not> canOpen st')"
    if "\<not> canOpen st" "no_open_cmd inps st"
    using loop_run_closed [OF that] by simp
  have d: "loop inp st = Some s1" if "loop_serial inp st = Some s1" "\<not> canOpen s1"
    using that by (simp add: loop_def loop_can_def)
  have e: "loop q s
        = Some (s'\<lparr>rxFrame := f, serial_out := serial_out s' @ slcan_line f @ [CR]\<rparr>)"
    if "loop_serial q s = Some s'" "canOpen s'" "can_rx q = Some f"
      "can_id f AND CAN_EFF_FLAG = 0" "can_dlc f \<le> 8" "wf_frame f" for q s s'
    using that sendSlcanFrame_std [OF that(4,5,6), of "s'\<lparr>rxFrame := f\<rparr>"]
    by (simp add: loop_def loop_can_def Serial_write_def)
  have h: "loop_run (c # inps) st0 = loop_run (map no_rx (c # inps)) st0
      \<and> (\<forall>st'. loop_run (c # inps) st0 = Some st' \<longrightarrow> \<not> canOpen st')"
    if "dispatched c st0 = Some (CHR ''C'')" "no_open_cmd (c # inps) st0"
    using run_after_close [OF that] by simp
  have i: "canOpen st2
      \<and> loop p st2
          = Some (s3\<lparr>rxFrame := f, serial_out := serial_out s3 @ slcan_line f @ [CR]\<rparr>)"
    if t: "dispatched opn st0 = Some (CHR ''O'')" "no_close_cmd (opn # inps) st0"
      "loop_run (opn # inps) st0 = Some st2"
      "dispatched p st2 \<noteq> Some (CHR ''C'')" "loop_serial p st2 = Some s3"
      "can_rx p = Some f" "can_id f AND CAN_EFF_FLAG = 0" "can_dlc f \<le> 8" "wf_frame f"
  proof -
    have o2: "canOpen st2" by (rule run_after_open [OF t(1,2,3)])
    have "canOpen s3" using loop_serial_canOpen [OF t(5)] t(4) o2 by simp
    from e [OF t(5) this t(6,7,8,9)] o2 show ?thesis by simp
  qed
  have k1: "cmd \<noteq> [] \<and> cmd ! 0 = CHR ''C'' \<longrightarrow>
      (\<exists>st'. parseSlcan g cmd st = Some st' \<and> \<not> canOpen st')"
    using a by blast
  have k2: "cmd \<noteq> [] \<and> cmd ! 0 = CHR ''O'' \<longrightarrow>
      (\<exists>st'. parseSlcan g cmd st = Some st' \<and> canOpen st')"
    using b by blast
  have k3: "\<not> canOpen st \<and> no_open_cmd inps st \<longrightarrow>
      loop_run inps st = loop_run (map no_rx inps) st
      \<and> (\<forall>st'. loop_run inps st = Some st' \<longrightarrow> \<not> canOpen st')"
    using c by blast
  have k4: "loop_serial inp st = Some s1 \<and> \<not> canOpen s1 \<longrightarrow> loop inp st = Some s1"
    using d by blast
  have k5: "loop_serial inp st = Some s1 \<and> canOpen s1 \<and> can_rx inp = Some f
       \<and> can_id f AND CAN_EFF_FLAG = 0 \<and> can_dlc f \<le> 8 \<and> wf_frame f \<longrightarrow>
      loop inp st
        = Some (s1\<lparr>rxFrame := f, serial_out := serial_out s1 @ slcan_line f @ [CR]\<rparr>)"
    using e [of inp st s1] by blast
  have k6: "wf_bridge st \<and> dispatched inp st = Some (CHR ''C'') \<longrightarrow>
      (\<exists>st'. loop inp st = Some st' \<and> \<not> canOpen st'
         \<and> serial_out st' = serial_out st @ [CR])"
    using loop_dispatch_close [of st inp] by blast
  have k7: "wf_bridge st \<and> dispatched inp st = Some (CHR ''O'') \<and> can_rx inp = Some f
       \<and> can_id f AND CAN_EFF_FLAG = 0 \<and> can_dlc f \<le> 8 \<and> wf_frame f \<longrightarrow>
      (\<exists>st'. loop inp st = Some st' \<and> canOpen st'
         \<and> serial_out st' = serial_out st @ [CR] @ slcan_line f @ [CR])"
    using loop_dispatch_open [of st inp f] by blast
  have k8: "dispatched c st0 = Some (CHR ''C'') \<and> no_open_cmd (c # inps) st0 \<longrightarrow>
      loop_run (c # inps) st0 = loop_run (map no_rx (c # inps)) st0
      \<and> (\<forall>st'. loop_run (c # inps) st0 = Some st' \<longrightarrow> \<not> canOpen st')"
    using h by blast
  have k9: "dispatched opn st0 = Some (CHR ''O'') \<and> no_close_cmd (opn # inps) st0
       \<and> loop_run (opn # inps) st0 = Some st2
       \<and> dispatched p st2 \<noteq> Some (CHR ''C'') \<and> loop_serial p st2 = Some s3
       \<and> can_rx p = Some f
       \<and> can_id f AND CAN_EFF_FLAG = 0 \<and> can_dlc f \<le> 8 \<and> wf_frame f \<longrightarrow>
      canOpen st2
      \<and> loop p st2
          = Some (s3\<lparr>rxFrame := f, serial_out := serial_out s3 @ slcan_line f @ [CR]\<rparr>)"
    using i by blast
  show ?thesis
    by (rule conjI [OF k1 conjI [OF k2 conjI [OF k3 conjI [OF k4 conjI [OF k5
          conjI [OF k6 conjI [OF k7 conjI [OF k8 k9]]]]]]]])
qed


theorem forwarding_gated_by_flag_witness:
  "(\<exists>st'. parseSlcan zero_frame (''C'' @ replicate 31 NUL) globals_init = Some st'
          \<and> \<not> canOpen st')
   \<and> (\<exists>st'. parseSlcan zero_frame (''O'' @ replicate 31 NUL) (globals_init\<lparr>canOpen := False\<rparr>)
            = Some st' \<and> canOpen st')
   \<and> loop_run
        [\<lparr>serial_in = None,
           can_rx = Some \<lparr>can_id = 0x123, can_dlc = 3, data = [1, 2, 3, 0, 0, 0, 0, 0]\<rparr>,
           tx_uninit = zero_frame\<rparr>,
         \<lparr>serial_in = Some (CHR ''Z''),
           can_rx = Some \<lparr>can_id = 0x123, can_dlc = 3, data = [1, 2, 3, 0, 0, 0, 0, 0]\<rparr>,
           tx_uninit = zero_frame\<rparr>,
         \<lparr>serial_in = Some CR,
           can_rx = Some \<lparr>can_id = 0x123, can_dlc = 3, data = [1, 2, 3, 0, 0, 0, 0, 0]\<rparr>,
           tx_uninit = zero_frame\<rparr>]
        (globals_init\<lparr>canOpen := False\<rparr>)
      = loop_run
        [\<lparr>serial_in = None, can_rx = None, tx_uninit = zero_frame\<rparr>,
         \<lparr>serial_in = Some (CHR ''Z''), can_rx = None, tx_uninit = zero_frame\<rparr>,
         \<lparr>serial_in = Some CR, can_rx = None, tx_uninit = zero_frame\<rparr>]
        (globals_init\<lparr>canOpen := False\<rparr>)
   \<and> loop \<lparr>serial_in = None,
           can_rx = Some \<lparr>can_id = 0x123, can_dlc = 3, data = [1, 2, 3, 0, 0, 0, 0, 0]\<rparr>,
           tx_uninit = zero_frame\<rparr> (globals_init\<lparr>canOpen := False\<rparr>)
      = Some (globals_init\<lparr>canOpen := False\<rparr>)
   \<and> loop \<lparr>serial_in = None,
           can_rx = Some \<lparr>can_id = 0x123, can_dlc = 3, data = [1, 2, 3, 0, 0, 0, 0, 0]\<rparr>,
           tx_uninit = zero_frame\<rparr> globals_init
      = Some (globals_init
               \<lparr>rxFrame := \<lparr>can_id = 0x123, can_dlc = 3, data = [1, 2, 3, 0, 0, 0, 0, 0]\<rparr>,
                serial_out := ''t1233010203'' @ [CR]\<rparr>)
   \<and> (\<exists>st'. loop \<lparr>serial_in = Some CR,
                  can_rx = Some \<lparr>can_id = 0x123, can_dlc = 3, data = [1, 2, 3, 0, 0, 0, 0, 0]\<rparr>,
                  tx_uninit = zero_frame\<rparr>
                (globals_init\<lparr>slcanBuf := ''C'' @ replicate 31 NUL, slcanLen := 1\<rparr>) = Some st'
          \<and> \<not> canOpen st' \<and> serial_out st' = [CR])
   \<and> (\<exists>st'. loop \<lparr>serial_in = Some CR,
                  can_rx = Some \<lparr>can_id = 0x123, can_dlc = 3, data = [1, 2, 3, 0, 0, 0, 0, 0]\<rparr>,
                  tx_uninit = zero_frame\<rparr>
                (globals_init\<lparr>slcanBuf := ''O'' @ replicate 31 NUL, slcanLen := 1,
                               canOpen := False\<rparr>) = Some st'
          \<and> canOpen st' \<and> serial_out st' = [CR] @ ''t1233010203'' @ [CR])
   \<and> loop_run
        [\<lparr>serial_in = Some CR,
           can_rx = Some \<lparr>can_id = 0x123, can_dlc = 3, data = [1, 2, 3, 0, 0, 0, 0, 0]\<rparr>,
           tx_uninit = zero_frame\<rparr>,
         \<lparr>serial_in = None,
           can_rx = Some \<lparr>can_id = 0x123, can_dlc = 3, data = [1, 2, 3, 0, 0, 0, 0, 0]\<rparr>,
           tx_uninit = zero_frame\<rparr>,
         \<lparr>serial_in = Some (CHR ''Z''),
           can_rx = Some \<lparr>can_id = 0x123, can_dlc = 3, data = [1, 2, 3, 0, 0, 0, 0, 0]\<rparr>,
           tx_uninit = zero_frame\<rparr>]
        (globals_init\<lparr>slcanBuf := ''C'' @ replicate 31 NUL, slcanLen := 1\<rparr>)
      = loop_run
        [\<lparr>serial_in = Some CR, can_rx = None, tx_uninit = zero_frame\<rparr>,
         \<lparr>serial_in = None, can_rx = None, tx_uninit = zero_frame\<rparr>,
         \<lparr>serial_in = Some (CHR ''Z''), can_rx = None, tx_uninit = zero_frame\<rparr>]
        (globals_init\<lparr>slcanBuf := ''C'' @ replicate 31 NUL, slcanLen := 1\<rparr>)
   \<and> loop_run
        [\<lparr>serial_in = Some CR, can_rx = None, tx_uninit = zero_frame\<rparr>,
         \<lparr>serial_in = None, can_rx = None, tx_uninit = zero_frame\<rparr>]
        (globals_init\<lparr>slcanBuf := ''O'' @ replicate 31 NUL, slcanLen := 1, canOpen := False\<rparr>)
      = Some (globals_init\<lparr>slcanBuf := ''O'' @ replicate 31 NUL, slcanLen := 0,
                            canOpen := True, serial_out := [CR]\<rparr>)
   \<and> loop \<lparr>serial_in = None,
           can_rx = Some \<lparr>can_id = 0x123, can_dlc = 3, data = [1, 2, 3, 0, 0, 0, 0, 0]\<rparr>,
           tx_uninit = zero_frame\<rparr>
        (globals_init\<lparr>slcanBuf := ''O'' @ replicate 31 NUL, slcanLen := 0,
                       canOpen := True, serial_out := [CR]\<rparr>)
      = Some (globals_init
               \<lparr>slcanBuf := ''O'' @ replicate 31 NUL, slcanLen := 0, canOpen := True,
                rxFrame := \<lparr>can_id = 0x123, can_dlc = 3, data = [1, 2, 3, 0, 0, 0, 0, 0]\<rparr>,
                serial_out := [CR] @ ''t1233010203'' @ [CR]\<rparr>)"
proof -
  let ?f = "\<lparr>can_id = 0x123, can_dlc = 3, data = [1, 2, 3, 0, 0, 0, 0, 0]\<rparr>"
  let ?p0 = "\<lparr>serial_in = None, can_rx = Some ?f, tx_uninit = zero_frame\<rparr>"
  let ?p1 = "\<lparr>serial_in = Some (CHR ''Z''), can_rx = Some ?f, tx_uninit = zero_frame\<rparr>"
  let ?p2 = "\<lparr>serial_in = Some CR, can_rx = Some ?f, tx_uninit = zero_frame\<rparr>"
  let ?n0 = "\<lparr>serial_in = None, can_rx = None, tx_uninit = zero_frame\<rparr>"
  let ?n1 = "\<lparr>serial_in = Some (CHR ''Z''), can_rx = None, tx_uninit = zero_frame\<rparr>"
  let ?n2 = "\<lparr>serial_in = Some CR, can_rx = None, tx_uninit = zero_frame\<rparr>"
  let ?cl = "globals_init\<lparr>canOpen := False\<rparr>"
  let ?sC = "globals_init\<lparr>slcanBuf := ''C'' @ replicate 31 NUL, slcanLen := 1\<rparr>"
  let ?cl1 = "globals_init\<lparr>slcanBuf := ''C'' @ replicate 31 NUL, slcanLen := 0,
                canOpen := False, serial_out := [CR]\<rparr>"
  let ?sO = "globals_init\<lparr>slcanBuf := ''O'' @ replicate 31 NUL, slcanLen := 1, canOpen := False\<rparr>"
  let ?op1 = "globals_init\<lparr>slcanBuf := ''O'' @ replicate 31 NUL, slcanLen := 0,
                canOpen := True, serial_out := [CR]\<rparr>"
  have s0: "loop_serial ?p0 ?cl = Some ?cl" "loop_serial ?p0 globals_init = Some globals_init"
    "loop_serial ?p0 ?op1 = Some ?op1"
    by (simp_all add: loop_serial_def)
  have l0: "loop ?p0 ?cl = Some ?cl"
    by (simp add: loop_def loop_can_def s0)
  have l1: "loop ?p1 ?cl = Some (?cl\<lparr>slcanBuf := ''Z'' @ replicate 31 NUL, slcanLen := 1\<rparr>)"
    by (simp add: loop_def loop_can_def loop_serial_def globals_init_def CR_def LF_def
        toupper_def numeral_eq_Suc)
  have d: "dispatched ?p0 ?cl = None" "dispatched ?p1 ?cl = None"
    "dispatched ?p2 (?cl\<lparr>slcanBuf := ''Z'' @ replicate 31 NUL, slcanLen := 1\<rparr>) = Some (CHR ''Z'')"
    by (simp_all add: dispatched_def CR_def LF_def globals_init_def)
  have n: "no_open_cmd [?p0, ?p1, ?p2] ?cl"
    by (simp only: no_open_cmd.simps l0 l1 d option.case) (simp split: option.splits)
  have f: "can_id ?f AND CAN_EFF_FLAG = 0" "can_dlc ?f \<le> 8" "wf_frame ?f"
    by (simp_all add: CAN_EFF_FLAG_def wf_frame_def)
  have line: "slcan_line ?f = ''t1233010203''"
    by (simp add: slcan_line_def hex_upper_def)
  have o: "serial_out globals_init = []" "canOpen globals_init" "\<not> canOpen ?cl"
    "serial_out ?sC = []" "serial_out ?sO = []" "serial_out ?op1 = [CR]"
    by (simp_all add: globals_init_def)
  have c: "''C'' @ replicate 31 NUL \<noteq> []" "(''C'' @ replicate 31 NUL) ! 0 = CHR ''C''"
    "''O'' @ replicate 31 NUL \<noteq> []" "(''O'' @ replicate 31 NUL) ! 0 = CHR ''O''"
    by simp_all
  have w1: "\<exists>st'. parseSlcan zero_frame (''C'' @ replicate 31 NUL) globals_init = Some st'
          \<and> \<not> canOpen st'"
    using forwarding_gated_by_flag [where cmd = "''C'' @ replicate 31 NUL" and g = zero_frame
        and st = globals_init] c(1,2)
    by blast
  have w2: "\<exists>st'. parseSlcan zero_frame (''O'' @ replicate 31 NUL) ?cl = Some st' \<and> canOpen st'"
    using forwarding_gated_by_flag [where cmd = "''O'' @ replicate 31 NUL" and g = zero_frame
        and st = ?cl] c(3,4)
    by blast
  have m: "map no_rx [?p0, ?p1, ?p2] = [?n0, ?n1, ?n2]"
    "map no_rx [?p2, ?p0, ?p1] = [?n2, ?n0, ?n1]"
    by (simp_all add: no_rx_def)
  have "loop_run [?p0, ?p1, ?p2] ?cl = loop_run (map no_rx [?p0, ?p1, ?p2]) ?cl"
    using forwarding_gated_by_flag [where st = ?cl and inps = "[?p0, ?p1, ?p2]"] o(3) n
    by blast
  then have w3: "loop_run [?p0, ?p1, ?p2] ?cl = loop_run [?n0, ?n1, ?n2] ?cl"
    by (simp only: m)
  have w4: "loop ?p0 ?cl = Some ?cl"
    using forwarding_gated_by_flag [where inp = ?p0 and st = ?cl and ?s1.0 = ?cl] s0(1) o(3)
    by blast
  have r: "can_rx ?p0 = Some ?f" "can_rx ?p2 = Some ?f" by simp_all
  have "loop ?p0 globals_init
      = Some (globals_init\<lparr>rxFrame := ?f,
                serial_out := serial_out globals_init @ slcan_line ?f @ [CR]\<rparr>)"
    using forwarding_gated_by_flag [where inp = ?p0 and st = globals_init
        and ?s1.0 = globals_init and f = ?f] s0(2) o(2) r(1) f
    by blast
  then have w5: "loop ?p0 globals_init
      = Some (globals_init\<lparr>rxFrame := ?f, serial_out := ''t1233010203'' @ [CR]\<rparr>)"
    by (simp only: line o(1) append_Nil)
  have wf: "wf_bridge ?sC" "wf_bridge ?sO"
    by (simp_all add: wf_bridge_def globals_init_def)
  have dC: "dispatched ?p2 ?sC = Some (CHR ''C'')" "dispatched ?p2 ?sO = Some (CHR ''O'')"
    "dispatched ?n2 ?sO = Some (CHR ''O'')"
    by (simp_all add: dispatched_def CR_def LF_def)
  have "\<exists>st'. loop ?p2 ?sC = Some st' \<and> \<not> canOpen st'
         \<and> serial_out st' = serial_out ?sC @ [CR]"
    using forwarding_gated_by_flag [where inp = ?p2 and st = ?sC] wf(1) dC(1)
    by blast
  then have w6: "\<exists>st'. loop ?p2 ?sC = Some st' \<and> \<not> canOpen st' \<and> serial_out st' = [CR]"
    by (simp only: o(4) append_Nil)
  have "\<exists>st'. loop ?p2 ?sO = Some st' \<and> canOpen st'
         \<and> serial_out st' = serial_out ?sO @ [CR] @ slcan_line ?f @ [CR]"
    using forwarding_gated_by_flag [where inp = ?p2 and st = ?sO and f = ?f] wf(2) dC(2) r(2) f
    by blast
  then have w7: "\<exists>st'. loop ?p2 ?sO = Some st' \<and> canOpen st'
         \<and> serial_out st' = [CR] @ ''t1233010203'' @ [CR]"
    by (simp only: o(5) line append_Nil)
  have lC: "loop ?p2 ?sC = Some ?cl1"
    by (simp add: loop_def loop_serial_def loop_can_def parseSlcan_def slcan_switch_def rd_def
        Serial_write_def globals_init_def CR_def LF_def list_update_same_conv)
  have lC0: "loop ?p0 ?cl1 = Some ?cl1"
    by (simp add: loop_def loop_serial_def loop_can_def)
  have dC1: "dispatched ?p0 ?cl1 = None" "dispatched ?p1 ?cl1 = None"
    by (simp_all add: dispatched_def CR_def LF_def)
  have dne: "Some (CHR ''C'') \<noteq> Some (CHR ''O'')" "None \<noteq> Some (CHR ''O'')"
    "Some (CHR ''O'') \<noteq> Some (CHR ''C'')" "None \<noteq> Some (CHR ''C'')"
    by simp_all
  have nC: "no_open_cmd (?p2 # [?p0, ?p1]) ?sC"
    by (simp only: no_open_cmd.simps lC lC0 dC dC1 option.case dne)
      (simp split: option.splits)
  have "loop_run (?p2 # [?p0, ?p1]) ?sC = loop_run (map no_rx (?p2 # [?p0, ?p1])) ?sC"
    using forwarding_gated_by_flag [where c = ?p2 and ?st0.0 = ?sC and inps = "[?p0, ?p1]"]
      dC(1) nC
    by blast
  then have w8: "loop_run [?p2, ?p0, ?p1] ?sC = loop_run [?n2, ?n0, ?n1] ?sC"
    by (simp only: m)
  have lO: "loop ?n2 ?sO = Some ?op1"
    by (simp add: loop_def loop_serial_def loop_can_def parseSlcan_def slcan_switch_def rd_def
        Serial_write_def globals_init_def CR_def LF_def list_update_same_conv)
  have lO0: "loop ?n0 ?op1 = Some ?op1"
    by (simp add: loop_def loop_serial_def loop_can_def)
  have dO1: "dispatched ?n0 ?op1 = None" "dispatched ?p0 ?op1 = None"
    by (simp_all add: dispatched_def)
  have nO: "no_close_cmd (?n2 # [?n0]) ?sO"
    by (simp only: no_close_cmd.simps lO lO0 dC dO1 option.case dne) simp
  have w9: "loop_run (?n2 # [?n0]) ?sO = Some ?op1"
    by (simp only: loop_run.simps lO lO0 option.case)
  have pd: "dispatched ?p0 ?op1 \<noteq> Some (CHR ''C'')"
    by (simp only: dO1 dne) simp
  have "loop ?p0 ?op1
      = Some (?op1\<lparr>rxFrame := ?f, serial_out := serial_out ?op1 @ slcan_line ?f @ [CR]\<rparr>)"
    using forwarding_gated_by_flag [where opn = ?n2 and ?st0.0 = ?sO and inps = "[?n0]"
        and ?st2.0 = ?op1 and p = ?p0 and ?s3.0 = ?op1 and f = ?f]
      dC(3) nO w9 pd s0(3) r(1) f
    by blast
  then have w10: "loop ?p0 ?op1
      = Some (globals_init
               \<lparr>slcanBuf := ''O'' @ replicate 31 NUL, slcanLen := 0, canOpen := True,
                rxFrame := ?f, serial_out := [CR] @ ''t1233010203'' @ [CR]\<rparr>)"
    by (simp add: line globals_init_def)
  show ?thesis
    by (rule conjI [OF w1 conjI [OF w2 conjI [OF w3 conjI [OF w4 conjI [OF w5
          conjI [OF w6 conjI [OF w7 conjI [OF w8 conjI [OF w9 w10]]]]]]]]])
qed


subsection \<open>Fields that are not hexadecimal, and lines that are too short\<close>

lemma hex_accum_prefix:
  "hex_accum acc s =
     foldl (\<lambda>a c. case hex_val c of None \<Rightarrow> a | Some d \<Rightarrow> a * 16 + d) acc
       (takeWhile (\<lambda>c. hex_val c \<noteq> None) s)"
  by (induction s arbitrary: acc) (auto split: option.splits)

lemma hex_accum_prefix_value: "hex_accum 0 s = hex_prefix_value s"
  by (simp add: hex_accum_prefix hex_prefix_value_def)

lemma strip_0x_non_digit: "hex_val c = None \<Longrightarrow> strip_0x (c # r) = c # r"
proof (cases r)
  case Nil
  then show ?thesis by simp
next
  case (Cons b r')
  assume "hex_val c = None"
  then have "c \<noteq> CHR ''0''" by (auto simp: hex_val_def)
  then show ?thesis using Cons by (cases r') simp_all
qed

lemma strtoul16_non_digit:
  assumes "hex_val c = None" and "\<not> isspace c" and "c \<noteq> CHR ''-''" and "c \<noteq> CHR ''+''"
  shows "strtoul16 (c # cs) = 0"
proof (cases "c = NUL")
  case True
  then show ?thesis by (simp add: strtoul16_def c_str_def)
next
  case False
  then have "c_str (c # cs) = c # c_str cs" by (simp add: c_str_def)
  then show ?thesis
    using assms by (simp add: strtoul16_def strip_0x_non_digit)
qed

text \<open>
  Claim C10, as amended. Every \<open>T\<close> or \<open>t\<close> line in the buffer is taken as a transmit
  command: a frame is handed to the controller and one carriage return is written,
  whatever the characters of the fields are. Each field is the value \<open>strtoul\<close> gives
  for it in base 16: after skipping white space, a sign and a \<open>0x\<close> prefix, the value of
  the longest prefix of base-16 digits, negated under a minus sign. An empty field, and
  a field whose first character is neither a base-16 digit, white space nor a sign,
  decodes to 0.
\<close>

theorem transmit_fields_unvalidated:
  assumes "21 \<le> length cmd" and "cmd ! 0 = CHR ''T'' \<or> cmd ! 0 = CHR ''t''" and "wf_frame g"
  shows "(\<exists>tx. parseSlcan g cmd st = Some (Serial_write [CR] (sendMessage tx st))
            \<and> can_id tx = strtoul16 [cmd ! 1, cmd ! 2, cmd ! 3, NUL]
            \<and> can_dlc tx = ucast (strtoul16 [cmd ! 4, NUL])
            \<and> (\<forall>j. j < min (unat (can_dlc tx)) 8 \<longrightarrow>
                  data tx ! j
                    = ucast (strtoul16 [cmd ! (5 + 2 * j), cmd ! (5 + 2 * j + 1), NUL])))
       \<and> (\<forall>s. \<exists>neg r. strip_sign (skip_space (c_str s)) = (neg, r)
              \<and> strtoul16 s = (let v = hex_prefix_value (strip_0x r)
                               in if 2 ^ 32 \<le> v then - 1
                                  else if neg then - of_nat v else of_nat v))
       \<and> strtoul16 [] = 0
       \<and> (\<forall>c cs. hex_val c = None \<and> \<not> isspace c \<and> c \<noteq> CHR ''-'' \<and> c \<noteq> CHR ''+''
              \<longrightarrow> strtoul16 (c # cs) = 0)"
proof -
  have len: "5 + 2 * min (unat (ucast (strtoul16 [cmd ! 4, NUL]) :: 8 word)) 8 \<le> length cmd"
    using assms(1) min_dlc_bound [of "cmd ! 4"] by linarith
  have g: "length (data g) = 8" using assms(3) by (simp add: wf_frame_def)
  from parse_transmit [OF assms(2) len g, of st]
  obtain d where d: "parseSlcan g cmd st =
              Some (Serial_write [CR] (sendMessage
                (g\<lparr>can_id := strtoul16 [cmd ! 1, cmd ! 2, cmd ! 3, NUL],
                   can_dlc := ucast (strtoul16 [cmd ! 4, NUL]), data := d\<rparr>) st))"
      "\<forall>j<8. d ! j = (if j < unat (ucast (strtoul16 [cmd ! 4, NUL]) :: 8 word)
                       then ucast (strtoul16 [cmd ! (5 + 2 * j), cmd ! (5 + 2 * j + 1), NUL])
                       else data g ! j)"
    by blast
  let ?tx = "g\<lparr>can_id := strtoul16 [cmd ! 1, cmd ! 2, cmd ! 3, NUL],
                can_dlc := ucast (strtoul16 [cmd ! 4, NUL]), data := d\<rparr>"
  have a: "\<exists>tx. parseSlcan g cmd st = Some (Serial_write [CR] (sendMessage tx st))
            \<and> can_id tx = strtoul16 [cmd ! 1, cmd ! 2, cmd ! 3, NUL]
            \<and> can_dlc tx = ucast (strtoul16 [cmd ! 4, NUL])
            \<and> (\<forall>j. j < min (unat (can_dlc tx)) 8 \<longrightarrow>
                  data tx ! j
                    = ucast (strtoul16 [cmd ! (5 + 2 * j), cmd ! (5 + 2 * j + 1), NUL]))"
    using d by (intro exI [of _ ?tx]) simp
  have b: "\<exists>neg r. strip_sign (skip_space (c_str s)) = (neg, r)
              \<and> strtoul16 s = (let v = hex_prefix_value (strip_0x r)
                               in if 2 ^ 32 \<le> v then - 1
                                  else if neg then - of_nat v else of_nat v)" for s
    by (cases "strip_sign (skip_space (c_str s))")
      (simp add: strtoul16_def hex_accum_prefix_value)
  have c: "strtoul16 [] = 0"
    by (simp add: strtoul16_def c_str_def)
  show ?thesis
    using a b c strtoul16_non_digit by blast
qed

text \<open>
  The reading by the longest prefix of digits alone does not describe every field. The
  identifier field \<open>-01\<close> has no leading digit, and its longest digit prefix is empty,
  but \<open>strtoul\<close> takes the sign and the two digits: the frame sent has the identifier
  word \<open>0xFFFFFFFF\<close>.
\<close>

theorem hex_prefix_counterexample:
  "hex_val (CHR ''-'') = None \<and> hex_prefix_value ''-01'' = 0
   \<and> (0xFFFFFFFF :: 32 word) \<noteq> of_nat (hex_prefix_value ''-01'')
   \<and> parseSlcan zero_frame (''t-010'' @ replicate 27 NUL) globals_init
     = Some (globals_init
              \<lparr>serial_out := [CR],
               can_tx := [\<lparr>can_id = 0xFFFFFFFF, can_dlc = 0, data = replicate 8 0\<rparr>]\<rparr>)"
  by (simp add: hex_prefix_value_def parseSlcan_def slcan_switch_def rd_def fill_data.simps
      strtoul16_def c_str_def hex_val_def isspace_def Serial_write_def sendMessage_def
      globals_init_def zero_frame_def NUL_def Let_def)

theorem transmit_fields_unvalidated_witness:
  "21 \<le> length (''tGGG1ZZ'' @ replicate 25 NUL) \<and> wf_frame zero_frame
   \<and> (\<exists>tx. parseSlcan zero_frame (''tGGG1ZZ'' @ replicate 25 NUL) globals_init
               = Some (Serial_write [CR] (sendMessage tx globals_init))
          \<and> can_id tx = 0 \<and> can_dlc tx = 1 \<and> data tx ! 0 = 0)"
proof -
  let ?c = "''tGGG1ZZ'' @ replicate 25 NUL"
  have h: "21 \<le> length ?c" "?c ! 0 = CHR ''T'' \<or> ?c ! 0 = CHR ''t''" "wf_frame zero_frame"
    by (simp_all add: wf_frame_def zero_frame_def)
  have z: "hex_val (CHR ''G'') = None \<and> \<not> isspace (CHR ''G'') \<and> CHR ''G'' \<noteq> CHR ''-''
      \<and> CHR ''G'' \<noteq> CHR ''+''"
    "hex_val (CHR ''Z'') = None \<and> \<not> isspace (CHR ''Z'') \<and> CHR ''Z'' \<noteq> CHR ''-''
      \<and> CHR ''Z'' \<noteq> CHR ''+''"
    by (simp_all add: hex_val_def isspace_def)
  note t = transmit_fields_unvalidated [OF h, of globals_init]
  from t z(1) have i: "strtoul16 [?c ! 1, ?c ! 2, ?c ! 3, NUL] = 0"
    by simp
  from t z(2) have p: "strtoul16 [?c ! (5 + 2 * 0), ?c ! (5 + 2 * 0 + 1), NUL] = 0"
    by simp
  have n: "(ucast (strtoul16 [?c ! 4, NUL]) :: 8 word) = 1"
    by (simp add: strtoul16_def c_str_def NUL_def hex_val_def isspace_def)
  from t obtain tx where tx: "parseSlcan zero_frame ?c globals_init
               = Some (Serial_write [CR] (sendMessage tx globals_init))"
    "can_id tx = strtoul16 [?c ! 1, ?c ! 2, ?c ! 3, NUL]"
    "can_dlc tx = ucast (strtoul16 [?c ! 4, NUL])"
    "\<forall>j. j < min (unat (can_dlc tx)) 8 \<longrightarrow>
        data tx ! j = ucast (strtoul16 [?c ! (5 + 2 * j), ?c ! (5 + 2 * j + 1), NUL])"
    by blast
  have dlc: "can_dlc tx = 1" using tx(3) n by simp
  have "data tx ! 0 = ucast (strtoul16 [?c ! (5 + 2 * 0), ?c ! (5 + 2 * 0 + 1), NUL])"
    using tx(4) [rule_format, of 0] dlc by simp
  then have d0: "data tx ! 0 = 0" by (simp only: p) simp
  have id0: "can_id tx = 0" using tx(2) i by simp
  from h(1,3) tx(1) id0 dlc d0 show ?thesis by blast
qed

text \<open>
  Claim C2. The claim asks that a transmit line shorter than its declared length
  requires be rejected with a bell byte and no frame. The sketch does not do this. After
  the line \<open>t1232AABB\<close>, the one-character line \<open>t\<close> is acknowledged with a carriage
  return and a second frame is sent: its identifier is read from the NUL that ends the
  line, its length and its payload from the bytes the first line left in the buffer.
\<close>

theorem short_transmit_line_not_rejected:
  "loop_run (serial_bytes zero_frame (''t1232AABB'' @ [CR] @ ''t'' @ [CR])) globals_init
   = Some \<lparr>slcanBuf = [CHR ''T'', NUL] @ ''232AABB'' @ replicate 23 NUL, slcanLen = 0,
           canOpen = True,
           rxFrame = \<lparr>can_id = 0, can_dlc = 0, data = replicate 8 0\<rparr>,
           serial_out = [CR, CR],
           can_tx = [\<lparr>can_id = 0x123, can_dlc = 2, data = [0xAA, 0xBB, 0, 0, 0, 0, 0, 0]\<rparr>,
                     \<lparr>can_id = 0, can_dlc = 2, data = [0xAA, 0xBB, 0, 0, 0, 0, 0, 0]\<rparr>]\<rparr>"
  by (simp add: serial_bytes_def loop_def loop_serial_def loop_can_def parseSlcan_def
      slcan_switch_def rd_def fill_data.simps strtoul16_def c_str_def hex_val_def isspace_def
      toupper_eval Serial_write_def sendMessage_def globals_init_def zero_frame_def
      CR_def LF_def NUL_def replicate_32 replicate_23 replicate_8 Let_def)


subsection \<open>Every pass returns\<close>

text \<open>
  The line buffer keeps its 32 bytes and a fill level below 32, from the initial globals
  on. In such a state a pass of \<open>loop\<close> never reads or writes outside an array, as long
  as the controller delivers frames with a length code of at most 8: the highest index
  \<open>parseSlcan\<close> reads is 20.
\<close>

lemma parse_keeps_buffer:
  assumes "21 \<le> length cmd" and "wf_frame g"
  shows "\<exists>st'. parseSlcan g cmd st = Some st'
           \<and> slcanBuf st' = slcanBuf st \<and> slcanLen st' = slcanLen st"
proof -
  have ne: "cmd \<noteq> []" using assms(1) by auto
  have len: "5 + 2 * min (unat (ucast (strtoul16 [cmd ! 4, NUL]) :: 8 word)) 8 \<le> length cmd"
    using assms(1) min_dlc_bound [of "cmd ! 4"] by linarith
  have g: "length (data g) = 8" using assms(2) by (simp add: wf_frame_def)
  consider "cmd ! 0 = CHR ''O''" | "cmd ! 0 = CHR ''C''"
    | "cmd ! 0 = CHR ''T'' \<or> cmd ! 0 = CHR ''t''"
    | "cmd ! 0 \<notin> {CHR ''O'', CHR ''C'', CHR ''T'', CHR ''t''}"
    by blast
  then show ?thesis
  proof cases
    case 1 then show ?thesis using parse_open [OF ne, of g st] by (simp add: Serial_write_def)
  next
    case 2 then show ?thesis using parse_close [OF ne, of g st] by (simp add: Serial_write_def)
  next
    case 3 then show ?thesis using parse_transmit [OF _ len g, of st]
      by (auto simp: Serial_write_def sendMessage_def)
  next
    case 4 then show ?thesis using parse_other [OF ne, of g st] by (simp add: Serial_write_def)
  qed
qed

lemma globals_init_wf: "wf_bridge globals_init"
  by (simp add: wf_bridge_def globals_init_def)

lemma loop_keeps_buffer:
  assumes st: "wf_bridge st" and g: "wf_frame (tx_uninit inp)"
    and rx: "\<forall>f. can_rx inp = Some f \<longrightarrow> wf_frame f \<and> can_dlc f \<le> 8"
  shows "\<exists>st'. loop inp st = Some st' \<and> wf_bridge st'"
proof -
  have l: "length (slcanBuf st) = 32" "slcanLen st < 32"
    using st by (simp_all add: wf_bridge_def)
  have "\<exists>s1. loop_serial inp st = Some s1 \<and> wf_bridge s1"
  proof (cases "serial_in inp")
    case None
    then show ?thesis using st by (simp add: loop_serial_def)
  next
    case (Some c)
    show ?thesis
    proof (cases "c = CR \<or> c = LF")
      case False
      then show ?thesis using Some l
        by (auto simp: loop_serial_def wf_bridge_def)
    next
      case True
      show ?thesis
      proof (cases "0 < slcanLen st")
        case False
        then show ?thesis using Some True st by (auto simp: loop_serial_def)
      next
        case pos: True
        let ?cmd = "(slcanBuf st)[slcanLen st := NUL]"
        have "21 \<le> length ?cmd" using l by simp
        from parse_keeps_buffer [OF this g, of "st\<lparr>slcanBuf := ?cmd\<rparr>"]
        obtain s2 where s2: "parseSlcan (tx_uninit inp) ?cmd (st\<lparr>slcanBuf := ?cmd\<rparr>) = Some s2"
          "slcanBuf s2 = ?cmd"
          by auto
        have "loop_serial inp st = Some (s2\<lparr>slcanLen := 0\<rparr>)"
          using Some True pos l s2(1) by (auto simp: loop_serial_def)
        moreover have "wf_bridge (s2\<lparr>slcanLen := 0\<rparr>)"
          using s2(2) l by (simp add: wf_bridge_def)
        ultimately show ?thesis by blast
      qed
    qed
  qed
  then obtain s1 where s1: "loop_serial inp st = Some s1" "wf_bridge s1" by blast
  have "\<exists>st'. loop_can inp s1 = Some st' \<and> wf_bridge st'"
  proof (cases "canOpen s1")
    case False
    then show ?thesis using s1(2) by (simp add: loop_can_def)
  next
    case op: True
    show ?thesis
    proof (cases "can_rx inp")
      case None
      then show ?thesis using s1(2) op by (simp add: loop_can_def)
    next
      case (Some f)
      then have f: "wf_frame f" "can_dlc f \<le> 8" using rx by simp_all
      show ?thesis
      proof (cases "can_id f AND CAN_EFF_FLAG = 0")
        case True
        from sendSlcanFrame_std [OF True f(2,1), of "s1\<lparr>rxFrame := f\<rparr>"]
        show ?thesis using Some op s1(2)
          by (simp add: loop_can_def Serial_write_def wf_bridge_def)
      next
        case False
        then show ?thesis using Some op s1(2)
          by (simp add: loop_can_def sendSlcanFrame_def wf_bridge_def)
      qed
    qed
  qed
  then show ?thesis using s1(1) by (simp add: loop_def)
qed


end
